theory Spec2Isabelle
  imports Main "HOL-Library.Sublist" "HOL-Library.Word"
begin

section \<open>The mount table of pkg/mount/mount.go\<close>

text \<open>
  The theory embeds the \<^verbatim>\<open>Mounter\<close> of \<^verbatim>\<open>pkg/mount/mount.go\<close>: its two maps, the
  operations \<^verbatim>\<open>Mount\<close>, \<^verbatim>\<open>Unmount\<close> and \<^verbatim>\<open>RemoveMountPath\<close>, the accessors and the
  constructor \<^verbatim>\<open>New\<close>. One call runs from start to end without interleaving, so the
  three mutexes (table, entry, key lock) have no effect and are left out; no call path
  takes a lock it already holds. Every collaborator outside the file (the mount backend,
  \<^verbatim>\<open>os.Stat\<close>, \<^verbatim>\<open>chattr\<close>, the scheduler) is a field of a \<open>world\<close> record that gives
  the result of the call, and every call made is listed in the outcome of the operation.
\<close>

subsection \<open>Types\<close>

type_synonym go_int = "64 word"
type_synonym uintptr = "64 word"

text \<open>An error value handed back by a collaborator, kept as its message.\<close>

type_synonym ext_error = string

text \<open>
  The five sentinel errors of the package, an error of a collaborator returned as it
  is, and the two errors built with \<^verbatim>\<open>fmt.Errorf\<close>. A collaborator's error is never one
  of the package's own sentinels.
\<close>

datatype error =
    ErrExist
  | ErrEnoent
  | ErrEinval
  | ErrUnsupported
  | ErrMountpathNotAllowed
  | ErrExternal ext_error
  | ErrReadOnlyFailed ext_error
  | ErrMultipleServers

record PathInfo =
  Path :: string

record Info =
  Device :: string
  Minor :: go_int
  Mountpoint :: "PathInfo list"
  Fs :: string

text \<open>
  \<^verbatim>\<open>DeviceMap\<close> is a map from device to \<^verbatim>\<open>*Info\<close>; every \<^verbatim>\<open>Info\<close> is reached through
  the map only, so a write through the pointer is an update of the map at that device.
\<close>

record Mounter =
  mounts :: "string \<rightharpoonup> Info"
  paths :: "string \<rightharpoonup> string"
  allowedDirs :: "string list"

record world =
  os_Stat :: "string \<Rightarrow> bool"
  chattr :: "string \<Rightarrow> string \<Rightarrow> ext_error option"
  impl_Mount :: "string \<Rightarrow> string \<Rightarrow> string \<Rightarrow> uintptr \<Rightarrow> string \<Rightarrow> go_int \<Rightarrow> ext_error option"
  impl_Unmount :: "string \<Rightarrow> go_int \<Rightarrow> go_int \<Rightarrow> ext_error option"
  sched_Schedule :: "string \<Rightarrow> ext_error option"

datatype call =
    StatCall string
  | ChattrCall string string
  | MountCall string string string uintptr string go_int
  | UnmountCall string go_int go_int
  | ScheduleCall string

text \<open>The calls that reach the backend's \<^verbatim>\<open>Mount\<close>.\<close>

fun isMountCall :: "call \<Rightarrow> bool" where
  "isMountCall (MountCall _ _ _ _ _ _) = True"
| "isMountCall _ = False"

record outcome =
  ret :: "error option"
  table :: Mounter
  calls :: "call list"

subsection \<open>Strings\<close>

text \<open>\<^verbatim>\<open>strings.Contains(s, substr)\<close>: \<open>substr\<close> occurs in \<open>s\<close> at some position.\<close>

fun Contains :: "string \<Rightarrow> string \<Rightarrow> bool" where
  "Contains [] substr = (substr = [])"
| "Contains (c # s) substr = (prefix substr (c # s) \<or> Contains s substr)"

definition normalizeMountPath :: "string \<Rightarrow> string" where
  "normalizeMountPath mountPath =
     (if length mountPath > 1 \<and> suffix ''/'' mountPath
      then take (length mountPath - 1) mountPath
      else mountPath)"

subsection \<open>Helpers of the table\<close>

definition maybeRemoveDevice :: "string \<Rightarrow> Mounter \<Rightarrow> Mounter" where
  "maybeRemoveDevice device m =
     (case mounts m device of
        Some info \<Rightarrow>
          if length (Mountpoint info) = 0 then m\<lparr>mounts := (mounts m)(device := None)\<rparr> else m
      | None \<Rightarrow> m)"

definition hasPath :: "Mounter \<Rightarrow> string \<Rightarrow> string option" where
  "hasPath m path = paths m path"

definition addPath :: "string \<Rightarrow> string \<Rightarrow> Mounter \<Rightarrow> Mounter" where
  "addPath path device m = m\<lparr>paths := (paths m)(path \<mapsto> device)\<rparr>"

definition deletePath :: "string \<Rightarrow> Mounter \<Rightarrow> bool \<times> Mounter" where
  "deletePath path m =
     (case paths m path of
        Some _ \<Rightarrow> (True, m\<lparr>paths := (paths m)(path := None)\<rparr>)
      | None \<Rightarrow> (False, m))"

text \<open>The loop over \<^verbatim>\<open>m.allowedDirs\<close> in \<^verbatim>\<open>Mount\<close>, with its \<^verbatim>\<open>break\<close>.\<close>

primrec foundPrefix :: "string list \<Rightarrow> string \<Rightarrow> bool" where
  "foundPrefix [] path = False"
| "foundPrefix (allowedDir # rest) path =
     (if Contains path allowedDir then True else foundPrefix rest path)"

text \<open>The loop over \<^verbatim>\<open>info.Mountpoint\<close> in \<^verbatim>\<open>Mount\<close> and \<^verbatim>\<open>Exists\<close>.\<close>

primrec mountedAt :: "PathInfo list \<Rightarrow> string \<Rightarrow> bool" where
  "mountedAt [] path = False"
| "mountedAt (p # ps) path = (if Path p = path then True else mountedAt ps path)"

text \<open>
  The loop over \<^verbatim>\<open>info.Mountpoint\<close> in \<^verbatim>\<open>Unmount\<close>: every branch of its body after the
  \<^verbatim>\<open>continue\<close> returns, so the loop finds the first index whose path matches.
\<close>

primrec indexOf :: "PathInfo list \<Rightarrow> string \<Rightarrow> nat \<Rightarrow> nat option" where
  "indexOf [] path i = None"
| "indexOf (p # ps) path i = (if Path p \<noteq> path then indexOf ps path (Suc i) else Some i)"

definition makeMountpathReadOnly :: "world \<Rightarrow> string \<Rightarrow> ext_error option \<times> call list" where
  "makeMountpathReadOnly w mountpath =
     (if os_Stat w mountpath
      then (case chattr w ''+i'' mountpath of
              Some err \<Rightarrow> (Some err, [StatCall mountpath, ChattrCall ''+i'' mountpath])
            | None \<Rightarrow> (None, [StatCall mountpath, ChattrCall ''+i'' mountpath]))
      else (None, [StatCall mountpath]))"

subsection \<open>RemoveMountPath\<close>

text \<open>
  The callback handed to the scheduler runs thirty seconds later, outside the call; it
  reads the table through \<^verbatim>\<open>HasTarget\<close> and never writes it. The call itself returns the
  scheduler's error, or nil.
\<close>

definition RemoveMountPath :: "world \<Rightarrow> string \<Rightarrow> Mounter \<Rightarrow> outcome" where
  "RemoveMountPath w path m =
     (if os_Stat w path
      then (case sched_Schedule w path of
              Some err \<Rightarrow>
                \<lparr>ret = Some (ErrExternal err), table = m, calls = [StatCall path, ScheduleCall path]\<rparr>
            | None \<Rightarrow> \<lparr>ret = None, table = m, calls = [StatCall path, ScheduleCall path]\<rparr>)
      else \<lparr>ret = None, table = m, calls = [StatCall path]\<rparr>)"

subsection \<open>Mount\<close>

definition Mount ::
  "world \<Rightarrow> go_int \<Rightarrow> string \<Rightarrow> string \<Rightarrow> string \<Rightarrow> uintptr \<Rightarrow> string \<Rightarrow> go_int \<Rightarrow> Mounter \<Rightarrow> outcome"
where
  "Mount w minor device path0 fs flags data timeout m =
     (let path = normalizeMountPath path0 in
      if length (allowedDirs m) > 0 \<and> \<not> foundPrefix (allowedDirs m) path
      then \<lparr>ret = Some ErrMountpathNotAllowed, table = m, calls = []\<rparr>
      else if (case hasPath m path of Some dev \<Rightarrow> dev \<noteq> device | None \<Rightarrow> False)
      then \<lparr>ret = Some ErrExist, table = m, calls = []\<rparr>
      else
        let info = (case mounts m device of
                      Some i \<Rightarrow> i
                    | None \<Rightarrow> \<lparr>Device = device, Minor = minor, Mountpoint = [], Fs = fs\<rparr>);
            m1 = m\<lparr>mounts := (mounts m)(device \<mapsto> info)\<rparr>
        in
        if fs \<noteq> Fs info then \<lparr>ret = Some ErrEinval, table = m1, calls = []\<rparr>
        else if mountedAt (Mountpoint info) path then \<lparr>ret = None, table = m1, calls = []\<rparr>
        else
          (case makeMountpathReadOnly w path of
             (Some err, cs) \<Rightarrow> \<lparr>ret = Some (ErrReadOnlyFailed err), table = m1, calls = cs\<rparr>
           | (None, cs) \<Rightarrow>
               (case impl_Mount w device path fs flags data timeout of
                  Some err \<Rightarrow>
                    \<lparr>ret = Some (ErrExternal err), table = m1,
                     calls = cs @ [MountCall device path fs flags data timeout]\<rparr>
                | None \<Rightarrow>
                    \<lparr>ret = None,
                     table = addPath path device
                       (m1\<lparr>mounts := (mounts m1)(device \<mapsto>
                          info\<lparr>Mountpoint := Mountpoint info @ [\<lparr>Path = path\<rparr>]\<rparr>)\<rparr>),
                     calls = cs @ [MountCall device path fs flags data timeout]\<rparr>)))"

subsection \<open>Unmount\<close>

text \<open>
  \<^verbatim>\<open>info.Mountpoint[i] = info.Mountpoint[len-1]\<close> followed by the reslice to
  \<^verbatim>\<open>[0 : len-1]\<close>; \<open>i\<close> is an index of the slice, so neither step is out of range.
\<close>

definition removeAt :: "nat \<Rightarrow> PathInfo list \<Rightarrow> PathInfo list" where
  "removeAt i mp = take (length mp - 1) (mp[i := mp ! (length mp - 1)])"

definition Unmount ::
  "world \<Rightarrow> string \<Rightarrow> string \<Rightarrow> go_int \<Rightarrow> go_int \<Rightarrow> bool \<Rightarrow> Mounter \<Rightarrow> outcome"
where
  "Unmount w device path0 flags timeout removePath m =
     (let path = normalizeMountPath path0 in
      case mounts m device of
        None \<Rightarrow> \<lparr>ret = Some ErrEnoent, table = m, calls = []\<rparr>
      | Some info \<Rightarrow>
          (case indexOf (Mountpoint info) path 0 of
             None \<Rightarrow> \<lparr>ret = None, table = m, calls = []\<rparr>
           | Some i \<Rightarrow>
               (case impl_Unmount w path flags timeout of
                  Some err \<Rightarrow>
                    \<lparr>ret = Some (ErrExternal err), table = m,
                     calls = [UnmountCall path flags timeout]\<rparr>
                | None \<Rightarrow>
                    let m1 = snd (deletePath path m);
                        m2 = m1\<lparr>mounts := (mounts m1)(device \<mapsto>
                               info\<lparr>Mountpoint := removeAt i (Mountpoint info)\<rparr>)\<rparr>;
                        m3 = maybeRemoveDevice device m2;
                        cs = (if removePath then calls (RemoveMountPath w path m3) else [])
                    in \<lparr>ret = None, table = m3, calls = UnmountCall path flags timeout # cs\<rparr>)))"

subsection \<open>Accessors\<close>

text \<open>
  The accessors read the table and return a value; none of them writes a field. A nil
  slice is \<open>None\<close>. \<^verbatim>\<open>GetSourcePaths\<close> lists the keys of a Go map, whose order is not
  fixed: the model returns the set of keys.
\<close>

definition Inspect :: "Mounter \<Rightarrow> string \<Rightarrow> PathInfo list option" where
  "Inspect m sourcePath =
     (case mounts m sourcePath of None \<Rightarrow> None | Some v \<Rightarrow> Some (Mountpoint v))"

definition Mounts :: "Mounter \<Rightarrow> string \<Rightarrow> string list option" where
  "Mounts m sourcePath =
     (case mounts m sourcePath of None \<Rightarrow> None | Some v \<Rightarrow> Some (map Path (Mountpoint v)))"

definition GetSourcePaths :: "Mounter \<Rightarrow> string set" where
  "GetSourcePaths m = dom (mounts m)"

definition HasMounts :: "Mounter \<Rightarrow> string \<Rightarrow> nat" where
  "HasMounts m sourcePath =
     (case mounts m sourcePath of None \<Rightarrow> 0 | Some v \<Rightarrow> length (Mountpoint v))"

definition Exists :: "Mounter \<Rightarrow> string \<Rightarrow> string \<Rightarrow> bool \<times> error option" where
  "Exists m sourcePath path =
     (case mounts m sourcePath of
        None \<Rightarrow> (False, Some ErrEnoent)
      | Some v \<Rightarrow> (mountedAt (Mountpoint v) path, None))"

text \<open>
  \<^verbatim>\<open>HasTarget\<close> and \<^verbatim>\<open>GetSourcePath\<close> walk the device map and return at the first
  entry that lists the path. The order of the walk is not fixed, so the model gives the
  set of pairs a call can return: one pair per device whose entry lists the path, or the
  single not-found pair.
\<close>

definition HasTarget :: "Mounter \<Rightarrow> string \<Rightarrow> (string \<times> bool) set" where
  "HasTarget m targetPath =
     (let hits = {k. \<exists>v. mounts m k = Some v \<and> mountedAt (Mountpoint v) targetPath}
      in if hits = {} then {([], False)} else (\<lambda>k. (k, True)) ` hits)"

definition GetSourcePath :: "Mounter \<Rightarrow> string \<Rightarrow> (string \<times> error option) set" where
  "GetSourcePath m mountPath =
     (let hits = {k. \<exists>v. mounts m k = Some v \<and> mountedAt (Mountpoint v) mountPath}
      in if hits = {} then {([], Some ErrEnoent)} else (\<lambda>k. (k, None)) ` hits)"

subsection \<open>New\<close>

text \<open>
  \<^verbatim>\<open>MountType\<close> is an \<^verbatim>\<open>int\<close>; its constants are \<^verbatim>\<open>1 << iota\<close>.
\<close>

type_synonym MountType = go_int

definition DeviceMount :: MountType where
  "DeviceMount = push_bit 0 1"

definition NFSMount :: MountType where
  "NFSMount = push_bit 1 1"

definition CustomMount :: MountType where
  "CustomMount = push_bit 2 1"

text \<open>A call of \<^verbatim>\<open>New\<close> returns its pair, or panics on an index out of range.\<close>

datatype 'm new_result = Panic | Returned "error + 'm"

text \<open>\<^verbatim>\<open>identifiers[i]\<close>: the element, or nothing where Go panics.\<close>

definition index :: "'a list \<Rightarrow> nat \<Rightarrow> 'a option" where
  "index xs i = (if i < length xs then Some (xs ! i) else None)"

text \<open>
  \<^verbatim>\<open>NewDeviceMounter\<close>, \<^verbatim>\<open>NewNFSMounter\<close>, \<^verbatim>\<open>NewCustomMounter\<close> and the value
  \<^verbatim>\<open>&DefaultMounter{}\<close> are parameters: the three constructors live in other files of
  the package. Each is taken to return its pair.
\<close>

definition New ::
  "(string list \<Rightarrow> 'i \<Rightarrow> string list \<Rightarrow> error + 'm) \<Rightarrow>
   (string \<Rightarrow> 'i \<Rightarrow> string list \<Rightarrow> error + 'm) \<Rightarrow>
   (string list \<Rightarrow> 'i \<Rightarrow> 'c \<Rightarrow> string list \<Rightarrow> error + 'm) \<Rightarrow>
   'i \<Rightarrow> MountType \<Rightarrow> 'i option \<Rightarrow> string list \<Rightarrow> 'c \<Rightarrow> string list \<Rightarrow> 'm new_result"
where
  "New NewDeviceMounter NewNFSMounter NewCustomMounter DefaultMounter
       mounterType mountImpl0 identifiers customMounter allowed =
     (let mountImpl = (case mountImpl0 of None \<Rightarrow> DefaultMounter | Some i \<Rightarrow> i) in
      if mounterType = DeviceMount
      then Returned (NewDeviceMounter identifiers mountImpl allowed)
      else if mounterType = NFSMount
      then (if length identifiers > 1 then Returned (Inl ErrMultipleServers)
            else (case index identifiers 0 of
                    None \<Rightarrow> Panic
                  | Some server \<Rightarrow> Returned (NewNFSMounter server mountImpl allowed)))
      else if mounterType = CustomMount
      then Returned (NewCustomMounter identifiers mountImpl customMounter allowed)
      else Returned (Inl ErrUnsupported))"

subsection \<open>Reachable tables\<close>

text \<open>
  Modelled from the spec: the constructors that build a \<^verbatim>\<open>Mounter\<close> value
  (\<^verbatim>\<open>NewDeviceMounter\<close>, \<^verbatim>\<open>NewNFSMounter\<close>, \<^verbatim>\<open>NewCustomMounter\<close>) are in other files of
  the package. The spec has the table constructed once with a fixed allow-list and every
  entry created by the first mount of its device, so a new table has two empty maps.
\<close>

definition NewMounter :: "string list \<Rightarrow> Mounter" where
  "NewMounter dirs = \<lparr>mounts = Map.empty, paths = Map.empty, allowedDirs = dirs\<rparr>"

text \<open>
  The tables a caller can observe: a new table, and the table left by any call of
  \<^verbatim>\<open>Mount\<close>, \<^verbatim>\<open>Unmount\<close> or \<^verbatim>\<open>RemoveMountPath\<close>, whatever the collaborators answer.
\<close>

inductive reachable :: "Mounter \<Rightarrow> bool" where
  new: "reachable (NewMounter dirs)"
| mount: "reachable m \<Longrightarrow> reachable (table (Mount w minor device path fs flags data timeout m))"
| unmount: "reachable m \<Longrightarrow> reachable (table (Unmount w device path flags timeout removePath m))"
| remove: "reachable m \<Longrightarrow> reachable (table (RemoveMountPath w path m))"


text \<open>
  The invariant the operations keep, stronger than \<open>consistent\<close>: no entry lists a
  path twice, the reverse index names the device whose entry lists the path, and every
  indexed path passed the allow-list check.
\<close>

definition table_inv :: "Mounter \<Rightarrow> bool" where
  "table_inv m =
     ((\<forall>d info. mounts m d = Some info \<longrightarrow>
         distinct (map Path (Mountpoint info)) \<and>
         (\<forall>p \<in> set (Mountpoint info). paths m (Path p) = Some d)) \<and>
      (\<forall>p d. paths m p = Some d \<longrightarrow>
         (\<exists>info. mounts m d = Some info \<and> p \<in> Path ` set (Mountpoint info))) \<and>
      (\<forall>p \<in> dom (paths m). allowedDirs m = [] \<or> foundPrefix (allowedDirs m) p))"

text \<open>Collaborators for the concrete runs: one where every call succeeds and no path
  exists on disk, one where every path exists and every call is refused.\<close>

definition world_ok :: world where
  "world_ok = \<lparr>os_Stat = (\<lambda>_. False), chattr = (\<lambda>_ _. None),
     impl_Mount = (\<lambda>_ _ _ _ _ _. None), impl_Unmount = (\<lambda>_ _ _. None),
     sched_Schedule = (\<lambda>_. None)\<rparr>"

definition world_refuse :: world where
  "world_refuse = \<lparr>os_Stat = (\<lambda>_. True), chattr = (\<lambda>_ _. None),
     impl_Mount = (\<lambda>_ _ _ _ _ _. Some ''EBUSY''), impl_Unmount = (\<lambda>_ _ _. Some ''EBUSY''),
     sched_Schedule = (\<lambda>_. Some ''rejected'')\<rparr>"

text \<open>Every path exists, the backend succeeds, the scheduler refuses the task.\<close>

definition world_nosched :: world where
  "world_nosched = \<lparr>os_Stat = (\<lambda>_. True), chattr = (\<lambda>_ _. None),
     impl_Mount = (\<lambda>_ _ _ _ _ _. None), impl_Unmount = (\<lambda>_ _ _. None),
     sched_Schedule = (\<lambda>_. Some ''rejected'')\<rparr>"

subsection \<open>Concrete tables\<close>

text \<open>The table after the first mount of the spec's scenario.\<close>

definition table_one :: Mounter where
  "table_one =
     table (Mount world_ok 1 ''/dev/sdb1'' ''/mnt/vol1'' ''ext4'' 0 [] 0 (NewMounter []))"

text \<open>A second device mounted at a second path.\<close>

definition table_two :: Mounter where
  "table_two = table (Mount world_ok 2 ''/dev/sdc1'' ''/mnt/vol2'' ''ext4'' 0 [] 0 table_one)"

text \<open>The table after a mount at a path that ends in two slashes.\<close>

definition table_slash :: Mounter where
  "table_slash = table (Mount world_ok 1 ''/dev/sdb1'' ''/a//'' ''ext4'' 0 [] 0 (NewMounter []))"

text \<open>The first mount on a table whose allow-list is \<open>[/mnt]\<close>.\<close>

definition table_allowed :: Mounter where
  "table_allowed =
     table (Mount world_ok 1 ''/dev/sdb1'' ''/mnt/vol1'' ''ext4'' 0 [] 0 (NewMounter [''/mnt'']))"

section \<open>Lemmas\<close>

subsection \<open>The loops\<close>

lemma mountedAt_iff: "mountedAt ps path \<longleftrightarrow> path \<in> Path ` set ps"
  by (induction ps) auto

lemma indexOf_None: "indexOf ps path i = None \<longleftrightarrow> path \<notin> Path ` set ps"
  by (induction ps arbitrary: i) auto

lemma indexOf_Some:
  "indexOf ps path i = Some j \<Longrightarrow> i \<le> j \<and> j - i < length ps \<and> Path (ps ! (j - i)) = path"
proof (induction ps arbitrary: i)
  case Nil
  then show ?case by simp
next
  case (Cons p ps)
  show ?case
  proof (cases "Path p = path")
    case True
    with Cons.prems show ?thesis by simp
  next
    case False
    with Cons.prems have "indexOf ps path (Suc i) = Some j" by simp
    from Cons.IH[OF this] show ?thesis
      by (auto simp: nth_Cons' Suc_diff_Suc split: if_splits)
  qed
qed

lemma removeAt_props:
  assumes "distinct (map Path mp)" "i < length mp"
  shows "Path ` set (removeAt i mp) = Path ` set mp - {Path (mp ! i)} \<and> distinct (map Path (removeAt i mp))"
proof (cases "i = length mp - 1")
  case True
  then have "removeAt i mp = butlast mp" by (simp add: removeAt_def butlast_conv_take)
  moreover from assms obtain ys l where mp: "mp = ys @ [l]"
    by (metis less_nat_zero_code list.size(3) rev_exhaust)
  ultimately show ?thesis using assms True by (auto simp: nth_append)
next
  case False
  from assms obtain ys l where mp: "mp = ys @ [l]"
    by (metis less_nat_zero_code list.size(3) rev_exhaust)
  with False assms have i: "i < length ys" by simp
  have r: "removeAt i mp = ys[i := l]"
    using i by (simp add: removeAt_def mp list_update_append nth_append)
  let ?zs = "map Path ys"
  have d: "distinct ?zs" and x: "Path l \<notin> set ?zs" using assms(1) mp by auto
  have iz: "i < length ?zs" using i by simp
  have m: "map Path (ys[i := l]) = ?zs[i := Path l]" by (simp add: map_update)
  have s: "set (?zs[i := Path l]) = insert (Path l) (set ?zs - {?zs ! i})"
    using d iz by (rule set_update_distinct)
  have dd: "distinct (?zs[i := Path l])"
    using d x by (simp add: distinct_list_update)
  have ne: "?zs ! i \<noteq> Path l" using x iz by (metis nth_mem)
  have "Path ` set (ys[i := l]) = set (map Path (ys[i := l]))" by simp
  also have "\<dots> = insert (Path l) (set ?zs - {?zs ! i})" using m s by simp
  also have "\<dots> = Path ` set mp - {Path (mp ! i)}"
    using ne i by (auto simp: mp nth_append)
  finally have "Path ` set (removeAt i mp) = Path ` set mp - {Path (mp ! i)}"
    using r by simp
  moreover have "distinct (map Path (removeAt i mp))" using r m dd by simp
  ultimately show ?thesis by simp
qed

subsection \<open>What a call leaves in the table\<close>

lemma Mount_table_cases:
  fixes m :: Mounter and path0 w minor device fs flags data timeout
  defines "path \<equiv> normalizeMountPath path0"
  defines "r \<equiv> Mount w minor device path0 fs flags data timeout m"
  defines "info \<equiv> (case mounts m device of Some i \<Rightarrow> i
                     | None \<Rightarrow> \<lparr>Device = device, Minor = minor, Mountpoint = [], Fs = fs\<rparr>)"
  shows "table r = m
       \<or> (mounts m device = None \<and> table r = m\<lparr>mounts := (mounts m)(device \<mapsto> info)\<rparr>)
       \<or> (\<not> mountedAt (Mountpoint info) path
          \<and> (allowedDirs m = [] \<or> foundPrefix (allowedDirs m) path)
          \<and> (paths m path = None \<or> paths m path = Some device)
          \<and> ret r = None
          \<and> table r = m\<lparr>mounts := (mounts m)(device \<mapsto>
                             info\<lparr>Mountpoint := Mountpoint info @ [\<lparr>Path = path\<rparr>]\<rparr>),
                         paths := (paths m)(path \<mapsto> device)\<rparr>)"
proof (cases "mounts m device")
  case None
  then show ?thesis
    unfolding r_def path_def info_def Mount_def Let_def hasPath_def addPath_def
    by (auto split: option.splits prod.splits)
next
  case (Some i)
  then have "(mounts m)(device \<mapsto> i) = mounts m" by (rule map_upd_triv)
  with Some show ?thesis
    unfolding r_def path_def info_def Mount_def Let_def hasPath_def addPath_def
    by (auto split: option.splits prod.splits)
qed

lemma snd_deletePath: "snd (deletePath path m) = m\<lparr>paths := (paths m)(path := None)\<rparr>"
proof (cases "paths m path")
  case None
  then have "(paths m)(path := None) = paths m" by (simp add: fun_upd_idem)
  with None show ?thesis by (simp add: deletePath_def)
next
  case (Some d)
  then show ?thesis by (simp add: deletePath_def)
qed

lemma Unmount_table_cases:
  fixes m :: Mounter and path0 w device flags timeout removePath
  defines "path \<equiv> normalizeMountPath path0"
  defines "r \<equiv> Unmount w device path0 flags timeout removePath m"
  shows "table r = m
       \<or> (\<exists>info i. mounts m device = Some info \<and> indexOf (Mountpoint info) path 0 = Some i
            \<and> impl_Unmount w path flags timeout = None \<and> ret r = None
            \<and> table r = maybeRemoveDevice device
                 (m\<lparr>paths := (paths m)(path := None),
                    mounts := (mounts m)(device \<mapsto>
                        info\<lparr>Mountpoint := removeAt i (Mountpoint info)\<rparr>)\<rparr>))"
  unfolding r_def path_def Unmount_def Let_def snd_deletePath
  by (auto split: option.splits)

lemma RemoveMountPath_table: "table (RemoveMountPath w path m) = m"
  by (simp add: RemoveMountPath_def split: option.splits)

subsection \<open>The invariant is kept\<close>

lemma inv_distinct:
  "table_inv m \<Longrightarrow> mounts m d = Some info \<Longrightarrow> distinct (map Path (Mountpoint info))"
  unfolding table_inv_def by blast

lemma inv_fwd:
  "table_inv m \<Longrightarrow> mounts m d = Some info \<Longrightarrow> p \<in> set (Mountpoint info) \<Longrightarrow>
   paths m (Path p) = Some d"
  unfolding table_inv_def by blast

lemma inv_bwd:
  "table_inv m \<Longrightarrow> paths m p = Some d \<Longrightarrow>
   \<exists>info. mounts m d = Some info \<and> p \<in> Path ` set (Mountpoint info)"
  unfolding table_inv_def by blast

lemma inv_pol:
  "table_inv m \<Longrightarrow> paths m p = Some d \<Longrightarrow> allowedDirs m = [] \<or> foundPrefix (allowedDirs m) p"
  unfolding table_inv_def by blast

lemma table_invI:
  assumes "\<And>d info. mounts m d = Some info \<Longrightarrow> distinct (map Path (Mountpoint info))"
    and "\<And>d info p. mounts m d = Some info \<Longrightarrow> p \<in> set (Mountpoint info) \<Longrightarrow>
           paths m (Path p) = Some d"
    and "\<And>p d. paths m p = Some d \<Longrightarrow>
           \<exists>info. mounts m d = Some info \<and> p \<in> Path ` set (Mountpoint info)"
    and "\<And>p d. paths m p = Some d \<Longrightarrow> allowedDirs m = [] \<or> foundPrefix (allowedDirs m) p"
  shows "table_inv m"
  unfolding table_inv_def using assms by blast

lemma table_inv_fresh:
  assumes inv: "table_inv m" and none: "mounts m device = None" and e: "Mountpoint info = []"
  shows "table_inv (m\<lparr>mounts := (mounts m)(device \<mapsto> info)\<rparr>)"
proof (rule table_invI)
  fix d i
  assume a: "mounts (m\<lparr>mounts := (mounts m)(device \<mapsto> info)\<rparr>) d = Some i"
  show "distinct (map Path (Mountpoint i))"
    using a e inv_distinct[OF inv, of d i] by (cases "d = device") auto
  fix p assume "p \<in> set (Mountpoint i)"
  then show "paths (m\<lparr>mounts := (mounts m)(device \<mapsto> info)\<rparr>) (Path p) = Some d"
    using a e inv_fwd[OF inv, of d i p] by (cases "d = device") auto
next
  fix p d
  assume "paths (m\<lparr>mounts := (mounts m)(device \<mapsto> info)\<rparr>) p = Some d"
  then have p: "paths m p = Some d" by simp
  from inv_bwd[OF inv p] none have "d \<noteq> device" by auto
  with inv_bwd[OF inv p]
  show "\<exists>i. mounts (m\<lparr>mounts := (mounts m)(device \<mapsto> info)\<rparr>) d = Some i
          \<and> p \<in> Path ` set (Mountpoint i)"
    by simp
  from inv_pol[OF inv p]
  show "allowedDirs (m\<lparr>mounts := (mounts m)(device \<mapsto> info)\<rparr>) = [] \<or>
        foundPrefix (allowedDirs (m\<lparr>mounts := (mounts m)(device \<mapsto> info)\<rparr>)) p"
    by simp
qed

lemma table_inv_added:
  assumes inv: "table_inv m"
    and info: "mounts m device = Some info \<or> (mounts m device = None \<and> Mountpoint info = [])"
    and new: "\<not> mountedAt (Mountpoint info) path"
    and pol: "allowedDirs m = [] \<or> foundPrefix (allowedDirs m) path"
    and free: "paths m path = None \<or> paths m path = Some device"
  shows "table_inv (m\<lparr>mounts := (mounts m)(device \<mapsto>
                             info\<lparr>Mountpoint := Mountpoint info @ [\<lparr>Path = path\<rparr>]\<rparr>),
                         paths := (paths m)(path \<mapsto> device)\<rparr>)"
    (is "table_inv ?m'")
proof (rule table_invI)
  have dinfo: "distinct (map Path (Mountpoint info))"
    using info inv_distinct[OF inv, of device info] by auto
  fix d i
  assume a: "mounts ?m' d = Some i"
  show "distinct (map Path (Mountpoint i))"
  proof (cases "d = device")
    case True
    with a have "Mountpoint i = Mountpoint info @ [\<lparr>Path = path\<rparr>]" by auto
    with dinfo new show ?thesis by (simp add: mountedAt_iff)
  next
    case False
    with a inv_distinct[OF inv, of d i] show ?thesis by simp
  qed
  fix p assume p: "p \<in> set (Mountpoint i)"
  show "paths ?m' (Path p) = Some d"
  proof (cases "d = device")
    case True
    with a have "Mountpoint i = Mountpoint info @ [\<lparr>Path = path\<rparr>]" by auto
    with p have "Path p = path \<or> p \<in> set (Mountpoint info)" by auto
    then show ?thesis
    proof
      assume "Path p = path" with True show ?thesis by simp
    next
      assume q: "p \<in> set (Mountpoint info)"
      with info have "mounts m device = Some info" by auto
      from inv_fwd[OF inv this q] True show ?thesis by simp
    qed
  next
    case False
    with a have "mounts m d = Some i" by simp
    from inv_fwd[OF inv this p] have "paths m (Path p) = Some d" .
    with free False have "Path p \<noteq> path" by auto
    with \<open>paths m (Path p) = Some d\<close> show ?thesis by simp
  qed
next
  fix p d
  assume a: "paths ?m' p = Some d"
  show "\<exists>i. mounts ?m' d = Some i \<and> p \<in> Path ` set (Mountpoint i)"
  proof (cases "p = path")
    case True
    with a have "d = device" by simp
    with True show ?thesis by simp
  next
    case False
    with a have q: "paths m p = Some d" by simp
    from inv_bwd[OF inv q] obtain i where i: "mounts m d = Some i" "p \<in> Path ` set (Mountpoint i)"
      by blast
    show ?thesis
    proof (cases "d = device")
      case True
      with i info have "i = info" by auto
      with i True show ?thesis by auto
    next
      case False
      with i show ?thesis by simp
    qed
  qed
  show "allowedDirs ?m' = [] \<or> foundPrefix (allowedDirs ?m') p"
  proof (cases "p = path")
    case True
    with pol show ?thesis by simp
  next
    case False
    with a have q: "paths m p = Some d" by simp
    from inv_pol[OF inv q] show ?thesis by simp
  qed
qed

lemma table_inv_Mount:
  assumes "table_inv m"
  shows "table_inv (table (Mount w minor device path0 fs flags data timeout m))"
proof -
  let ?r = "Mount w minor device path0 fs flags data timeout m"
  let ?info = "case mounts m device of Some i \<Rightarrow> i
                | None \<Rightarrow> \<lparr>Device = device, Minor = minor, Mountpoint = [], Fs = fs\<rparr>"
  let ?path = "normalizeMountPath path0"
  have i: "mounts m device = Some ?info \<or> (mounts m device = None \<and> Mountpoint ?info = [])"
    by (cases "mounts m device") auto
  from Mount_table_cases[of w minor device path0 fs flags data timeout m]
  consider "table ?r = m"
    | "mounts m device = None" "table ?r = m\<lparr>mounts := (mounts m)(device \<mapsto> ?info)\<rparr>"
    | "\<not> mountedAt (Mountpoint ?info) ?path"
      "allowedDirs m = [] \<or> foundPrefix (allowedDirs m) ?path"
      "paths m ?path = None \<or> paths m ?path = Some device"
      "table ?r = m\<lparr>mounts := (mounts m)(device \<mapsto>
                             ?info\<lparr>Mountpoint := Mountpoint ?info @ [\<lparr>Path = ?path\<rparr>]\<rparr>),
                         paths := (paths m)(?path \<mapsto> device)\<rparr>"
    by argo
  then show ?thesis
  proof cases
    case 1
    with assms show ?thesis by simp
  next
    case 2
    then have "Mountpoint ?info = []" by simp
    from table_inv_fresh[OF assms 2(1) this] 2(2) show ?thesis by simp
  next
    case 3
    from table_inv_added[OF assms i 3(1) 3(2) 3(3)] 3(4) show ?thesis by simp
  qed
qed

lemma table_inv_maybeRemoveDevice:
  assumes inv: "table_inv m"
  shows "table_inv (maybeRemoveDevice device m)"
proof (cases "\<exists>info. mounts m device = Some info \<and> Mountpoint info = []")
  case False
  then have "maybeRemoveDevice device m = m"
    by (auto simp: maybeRemoveDevice_def split: option.splits)
  with inv show ?thesis by simp
next
  case True
  then obtain info where info: "mounts m device = Some info" "Mountpoint info = []" by blast
  then have eq: "maybeRemoveDevice device m = m\<lparr>mounts := (mounts m)(device := None)\<rparr>"
    by (simp add: maybeRemoveDevice_def)
  show ?thesis unfolding eq
  proof (rule table_invI)
    fix d i
    assume a: "mounts (m\<lparr>mounts := (mounts m)(device := None)\<rparr>) d = Some i"
    then have b: "mounts m d = Some i" by (simp split: if_splits)
    from inv_distinct[OF inv b] show "distinct (map Path (Mountpoint i))" .
    fix p assume "p \<in> set (Mountpoint i)"
    from inv_fwd[OF inv b this]
    show "paths (m\<lparr>mounts := (mounts m)(device := None)\<rparr>) (Path p) = Some d" by simp
  next
    fix p d
    assume "paths (m\<lparr>mounts := (mounts m)(device := None)\<rparr>) p = Some d"
    then have q: "paths m p = Some d" by simp
    from inv_bwd[OF inv q] info have "d \<noteq> device" by auto
    with inv_bwd[OF inv q]
    show "\<exists>i. mounts (m\<lparr>mounts := (mounts m)(device := None)\<rparr>) d = Some i
            \<and> p \<in> Path ` set (Mountpoint i)" by simp
    from inv_pol[OF inv q]
    show "allowedDirs (m\<lparr>mounts := (mounts m)(device := None)\<rparr>) = [] \<or>
          foundPrefix (allowedDirs (m\<lparr>mounts := (mounts m)(device := None)\<rparr>)) p" by simp
  qed
qed

lemma table_inv_removed:
  assumes inv: "table_inv m"
    and info: "mounts m device = Some info"
    and idx: "indexOf (Mountpoint info) path 0 = Some i"
  shows "table_inv (m\<lparr>paths := (paths m)(path := None),
                    mounts := (mounts m)(device \<mapsto>
                        info\<lparr>Mountpoint := removeAt i (Mountpoint info)\<rparr>)\<rparr>)"
    (is "table_inv ?m'")
proof (rule table_invI)
  let ?mp = "Mountpoint info"
  from indexOf_Some[OF idx] have i: "i < length ?mp" and pi: "Path (?mp ! i) = path" by auto
  have dm: "distinct (map Path ?mp)" by (rule inv_distinct[OF inv info])
  from removeAt_props[OF dm i] pi
  have rs: "Path ` set (removeAt i ?mp) = Path ` set ?mp - {path}"
    and rd: "distinct (map Path (removeAt i ?mp))" by auto
  have own: "paths m path = Some device"
    using inv_fwd[OF inv info, of "?mp ! i"] i pi by auto
  fix d j
  assume a: "mounts ?m' d = Some j"
  show "distinct (map Path (Mountpoint j))"
  proof (cases "d = device")
    case True
    with a rd show ?thesis by auto
  next
    case False
    with a inv_distinct[OF inv, of d j] show ?thesis by simp
  qed
  fix p assume p: "p \<in> set (Mountpoint j)"
  show "paths ?m' (Path p) = Some d"
  proof (cases "d = device")
    case True
    with a p have "Path p \<in> Path ` set (removeAt i ?mp)" by auto
    with rs have ne: "Path p \<noteq> path" and "Path p \<in> Path ` set ?mp" by auto
    then obtain q where "q \<in> set ?mp" "Path q = Path p" by auto
    with inv_fwd[OF inv info, of q] have "paths m (Path p) = Some device" by simp
    with ne True show ?thesis by simp
  next
    case False
    with a have "mounts m d = Some j" by simp
    from inv_fwd[OF inv this p] have q: "paths m (Path p) = Some d" .
    with own False have "Path p \<noteq> path" by auto
    with q show ?thesis by simp
  qed
next
  let ?mp = "Mountpoint info"
  from indexOf_Some[OF idx] have i: "i < length ?mp" and pi: "Path (?mp ! i) = path" by auto
  have dm: "distinct (map Path ?mp)" by (rule inv_distinct[OF inv info])
  from removeAt_props[OF dm i] pi
  have rs: "Path ` set (removeAt i ?mp) = Path ` set ?mp - {path}" by auto
  fix p d
  assume a: "paths ?m' p = Some d"
  then have ne: "p \<noteq> path" and q: "paths m p = Some d" by (auto split: if_splits)
  from inv_bwd[OF inv q] obtain j where j: "mounts m d = Some j" "p \<in> Path ` set (Mountpoint j)"
    by blast
  show "\<exists>j. mounts ?m' d = Some j \<and> p \<in> Path ` set (Mountpoint j)"
  proof (cases "d = device")
    case True
    with j info have "j = info" by simp
    with j ne rs have "p \<in> Path ` set (removeAt i ?mp)" by auto
    with True show ?thesis by simp
  next
    case False
    with j show ?thesis by simp
  qed
  from inv_pol[OF inv q] show "allowedDirs ?m' = [] \<or> foundPrefix (allowedDirs ?m') p" by simp
qed

lemma table_inv_Unmount:
  assumes "table_inv m"
  shows "table_inv (table (Unmount w device path0 flags timeout removePath m))"
  using Unmount_table_cases[of w device path0 flags timeout removePath m] assms
  by (auto intro!: table_inv_maybeRemoveDevice table_inv_removed)

subsection \<open>Reachable tables keep the invariant\<close>

lemma table_inv_NewMounter: "table_inv (NewMounter dirs)"
  by (simp add: table_inv_def NewMounter_def)

lemma reachable_table_inv: "reachable m \<Longrightarrow> table_inv m"
proof (induction rule: reachable.induct)
  case (new dirs)
  show ?case by (rule table_inv_NewMounter)
next
  case (mount m w minor device path fs flags data timeout)
  then show ?case by (simp add: table_inv_Mount)
next
  case (unmount m w device path flags timeout removePath)
  then show ?case by (simp add: table_inv_Unmount)
next
  case (remove m w path)
  then show ?case by (simp add: RemoveMountPath_table)
qed


subsection \<open>Concrete runs\<close>

lemma normalize_vol1: "normalizeMountPath ''/mnt/vol1'' = ''/mnt/vol1''"
  by (simp add: normalizeMountPath_def suffix_def)

lemma table_one_eq:
  "table_one = \<lparr>mounts = [''/dev/sdb1'' \<mapsto> \<lparr>Device = ''/dev/sdb1'', Minor = 1,
                    Mountpoint = [\<lparr>Path = ''/mnt/vol1''\<rparr>], Fs = ''ext4''\<rparr>],
                paths = [''/mnt/vol1'' \<mapsto> ''/dev/sdb1''], allowedDirs = []\<rparr>"
  by (simp add: table_one_def Mount_def Let_def normalize_vol1 NewMounter_def hasPath_def
      makeMountpathReadOnly_def world_ok_def addPath_def)

lemma reachable_table_one: "reachable table_one"
  unfolding table_one_def by (intro reachable.intros)

subsection \<open>Facts about single calls\<close>

lemma Mount_success:
  assumes "ret (Mount w minor device path0 fs flags data timeout m) = None"
  shows "\<exists>info. mounts (table (Mount w minor device path0 fs flags data timeout m)) device = Some info
           \<and> Fs info = fs \<and> mountedAt (Mountpoint info) (normalizeMountPath path0)"
    and "allowedDirs m = [] \<or> foundPrefix (allowedDirs m) (normalizeMountPath path0)"
    and "allowedDirs (table (Mount w minor device path0 fs flags data timeout m)) = allowedDirs m"
  using assms
  by (auto simp: Mount_def Let_def addPath_def mountedAt_iff split: if_splits option.splits prod.splits)

lemma Mount_noop:
  assumes "mounts m device = Some info" "Fs info = fs"
    and "mountedAt (Mountpoint info) (normalizeMountPath path0)"
    and "allowedDirs m = [] \<or> foundPrefix (allowedDirs m) (normalizeMountPath path0)"
    and "paths m (normalizeMountPath path0) = Some device"
  shows "Mount w minor device path0 fs flags data timeout m = \<lparr>ret = None, table = m, calls = []\<rparr>"
proof -
  from assms(1) have "(mounts m)(device \<mapsto> info) = mounts m" by (rule map_upd_triv)
  with assms show ?thesis by (auto simp: Mount_def Let_def hasPath_def)
qed

lemma makeMountpathReadOnly_calls:
  "filter isMountCall (snd (makeMountpathReadOnly w p)) = []"
  by (simp add: makeMountpathReadOnly_def split: option.splits)

lemma Mount_success_calls:
  assumes "ret (Mount w minor device path0 fs flags data timeout m) = None"
  shows "length (filter isMountCall (calls (Mount w minor device path0 fs flags data timeout m))) =
         (if fst (Exists m device (normalizeMountPath path0)) then 0 else 1)"
  using assms makeMountpathReadOnly_calls[of w "normalizeMountPath path0"]
  by (auto simp: Mount_def Let_def Exists_def split: if_splits option.splits prod.splits)

lemma count_list_distinct: "distinct xs \<Longrightarrow> x \<in> set xs \<Longrightarrow> count_list xs x = 1"
  by (induction xs) auto

lemma Mount_backend_error:
  assumes "impl_Mount w device (normalizeMountPath path) fs flags data timeout = Some e"
  shows "paths (table (Mount w minor device path fs flags data timeout m)) = paths m"
    and "mounts (table (Mount w minor device path fs flags data timeout m)) d = mounts m d \<or>
         (d = device \<and> mounts m d = None \<and>
          mounts (table (Mount w minor device path fs flags data timeout m)) d =
            Some \<lparr>Device = device, Minor = minor, Mountpoint = [], Fs = fs\<rparr>)"
    and "MountCall device (normalizeMountPath path) fs flags data timeout
           \<in> set (calls (Mount w minor device path fs flags data timeout m)) \<Longrightarrow>
         ret (Mount w minor device path fs flags data timeout m) = Some (ErrExternal e)"
  using assms
  by (auto simp: Mount_def Let_def makeMountpathReadOnly_def split: option.splits if_splits)

lemma Unmount_backend_error:
  assumes "impl_Unmount w (normalizeMountPath path) flags timeout = Some e"
  shows "table (Unmount w device path flags timeout removePath m) = m"
    and "UnmountCall (normalizeMountPath path) flags timeout
           \<in> set (calls (Unmount w device path flags timeout removePath m)) \<Longrightarrow>
         ret (Unmount w device path flags timeout removePath m) = Some (ErrExternal e)"
  using assms
  by (auto simp: Unmount_def Let_def split: option.splits)

lemma Contains_sublist: "Contains s substr = sublist substr s"
  by (induction s) (auto simp: sublist_Cons_right)

lemma foundPrefix_iff: "foundPrefix dirs path = (\<exists>a \<in> set dirs. sublist a path)"
  by (induction dirs) (auto simp: Contains_sublist)

lemma Mount_fs_mismatch_ret:
  assumes "mounts m D = Some info" "Fs info \<noteq> fs"
  shows "Mount w minor D path fs flags data timeout m =
           \<lparr>ret = Some (if allowedDirs m \<noteq> [] \<and> \<not> foundPrefix (allowedDirs m) (normalizeMountPath path)
                         then ErrMountpathNotAllowed
                         else if (case paths m (normalizeMountPath path) of
                                    Some dev \<Rightarrow> dev \<noteq> D | None \<Rightarrow> False)
                         then ErrExist else ErrEinval),
            table = m, calls = []\<rparr>"
proof -
  from assms(1) have "(mounts m)(D \<mapsto> info) = mounts m" by (rule map_upd_triv)
  with assms show ?thesis by (auto simp: Mount_def Let_def hasPath_def)
qed

lemma indexOf_mountedAt: "(indexOf ps path i = None) = (\<not> mountedAt ps path)"
  by (simp add: indexOf_None mountedAt_iff)

lemma indexOf_Some_mountedAt: "indexOf ps path i = Some j \<Longrightarrow> mountedAt ps path"
  using indexOf_mountedAt[of ps path i] by auto

lemma mountedAt_indexOf: "mountedAt ps path \<Longrightarrow> \<exists>j. indexOf ps path i = Some j"
  using indexOf_mountedAt[of ps path i] by auto

lemma removeAt_single: "removeAt 0 [p] = []"
  by (simp add: removeAt_def)

lemma Unmount_removePath:
  "ret (Unmount w device path flags timeout True m) = ret (Unmount w device path flags timeout False m)"
  "table (Unmount w device path flags timeout True m) = table (Unmount w device path flags timeout False m)"
  by (simp_all add: Unmount_def Let_def split: option.splits)

lemma Unmount_found:
  assumes "mounts m device = Some info"
    and "mountedAt (Mountpoint info) (normalizeMountPath path)"
    and "impl_Unmount w (normalizeMountPath path) flags timeout = None"
  shows "ret (Unmount w device path flags timeout removePath m) = None"
proof -
  from mountedAt_indexOf[OF assms(2)] obtain j
    where "indexOf (Mountpoint info) (normalizeMountPath path) 0 = Some j" by blast
  with assms(1,3) show ?thesis by (simp add: Unmount_def Let_def)
qed

lemma normalize_concrete:
  "normalizeMountPath ''/mnt/vol1/'' = ''/mnt/vol1''"
  "normalizeMountPath ''/mnt/vol2'' = ''/mnt/vol2''"
  "normalizeMountPath ''/mnt/other'' = ''/mnt/other''"
  "normalizeMountPath ''/a//'' = ''/a/''"
  "normalizeMountPath ''/a/'' = ''/a''"
  "normalizeMountPath ''/srv/x'' = ''/srv/x''"
  "normalizeMountPath ''/var/mnt/x'' = ''/var/mnt/x''"
  by (simp_all add: normalizeMountPath_def suffix_def)

lemmas run_defs = Mount_def Unmount_def RemoveMountPath_def Let_def NewMounter_def hasPath_def
  makeMountpathReadOnly_def addPath_def snd_deletePath removeAt_def maybeRemoveDevice_def
  world_ok_def world_refuse_def world_nosched_def normalize_vol1 normalize_concrete
  Mounts_def GetSourcePaths_def Exists_def

lemma table_two_eq:
  "table_two = \<lparr>mounts = [''/dev/sdb1'' \<mapsto> \<lparr>Device = ''/dev/sdb1'', Minor = 1,
                    Mountpoint = [\<lparr>Path = ''/mnt/vol1''\<rparr>], Fs = ''ext4''\<rparr>,
                  ''/dev/sdc1'' \<mapsto> \<lparr>Device = ''/dev/sdc1'', Minor = 2,
                    Mountpoint = [\<lparr>Path = ''/mnt/vol2''\<rparr>], Fs = ''ext4''\<rparr>],
                paths = [''/mnt/vol1'' \<mapsto> ''/dev/sdb1'', ''/mnt/vol2'' \<mapsto> ''/dev/sdc1''],
                allowedDirs = []\<rparr>"
  by (simp add: table_two_def table_one_eq run_defs)

lemma table_slash_eq:
  "table_slash = \<lparr>mounts = [''/dev/sdb1'' \<mapsto> \<lparr>Device = ''/dev/sdb1'', Minor = 1,
                    Mountpoint = [\<lparr>Path = ''/a/''\<rparr>], Fs = ''ext4''\<rparr>],
                paths = [''/a/'' \<mapsto> ''/dev/sdb1''], allowedDirs = []\<rparr>"
  by (simp add: table_slash_def run_defs)

lemma first_mount_run:
  "Mount world_ok 1 ''/dev/sdb1'' ''/mnt/vol1/'' ''ext4'' 0 [] 0 (NewMounter []) =
     \<lparr>ret = None, table = table_one,
      calls = [StatCall ''/mnt/vol1'', MountCall ''/dev/sdb1'' ''/mnt/vol1'' ''ext4'' 0 [] 0]\<rparr>"
  by (simp add: table_one_eq run_defs)

subsection \<open>The scans and the reverse index\<close>

lemma holder_indexed:
  assumes "table_inv m" "mounts m k = Some v" "mountedAt (Mountpoint v) p"
  shows "paths m p = Some k"
proof -
  from assms(3) obtain q where "q \<in> set (Mountpoint v)" "Path q = p"
    by (auto simp: mountedAt_iff)
  with inv_fwd[OF assms(1,2), of q] show ?thesis by simp
qed

lemma indexed_holder:
  assumes "table_inv m" "paths m p = Some d"
  shows "\<exists>v. mounts m d = Some v \<and> mountedAt (Mountpoint v) p"
  using inv_bwd[OF assms] by (simp add: mountedAt_iff)

lemma hits_reachable:
  assumes "reachable m"
  shows "{k. \<exists>v. mounts m k = Some v \<and> mountedAt (Mountpoint v) p} =
         (case paths m p of Some d \<Rightarrow> {d} | None \<Rightarrow> {})"
proof -
  have inv: "table_inv m" by (rule reachable_table_inv[OF assms])
  show ?thesis
  proof (cases "paths m p")
    case None
    have "{k. \<exists>v. mounts m k = Some v \<and> mountedAt (Mountpoint v) p} = {}"
    proof (rule equals0I)
      fix k assume "k \<in> {k. \<exists>v. mounts m k = Some v \<and> mountedAt (Mountpoint v) p}"
      then obtain v where "mounts m k = Some v" "mountedAt (Mountpoint v) p" by blast
      from holder_indexed[OF inv this] None show False by simp
    qed
    with None show ?thesis by simp
  next
    case (Some d)
    have "{k. \<exists>v. mounts m k = Some v \<and> mountedAt (Mountpoint v) p} = {d}"
    proof (intro set_eqI iffI)
      fix k assume "k \<in> {k. \<exists>v. mounts m k = Some v \<and> mountedAt (Mountpoint v) p}"
      then obtain v where "mounts m k = Some v" "mountedAt (Mountpoint v) p" by blast
      from holder_indexed[OF inv this] Some show "k \<in> {d}" by simp
    next
      fix k assume "k \<in> {d}"
      then have "k = d" by simp
      with indexed_holder[OF inv Some]
      show "k \<in> {k. \<exists>v. mounts m k = Some v \<and> mountedAt (Mountpoint v) p}" by simp
    qed
    with Some show ?thesis by simp
  qed
qed

lemma Mount_new_device_backend_error:
  assumes "mounts m D = None"
    and "ret (Mount w minor D path fs flags data timeout m) = Some (ErrExternal e)"
  shows "table (Mount w minor D path fs flags data timeout m) =
           m\<lparr>mounts := (mounts m)(D \<mapsto> \<lparr>Device = D, Minor = minor, Mountpoint = [], Fs = fs\<rparr>)\<rparr>"
  using assms
  by (auto simp: Mount_def Let_def split: if_splits option.splits prod.splits)

lemma table_allowed_eq:
  "table_allowed = \<lparr>mounts = [''/dev/sdb1'' \<mapsto> \<lparr>Device = ''/dev/sdb1'', Minor = 1,
                    Mountpoint = [\<lparr>Path = ''/mnt/vol1''\<rparr>], Fs = ''ext4''\<rparr>],
                paths = [''/mnt/vol1'' \<mapsto> ''/dev/sdb1''], allowedDirs = [''/mnt'']\<rparr>"
  by (simp add: table_allowed_def run_defs)

lemma reachable_table_two: "reachable table_two"
  unfolding table_two_def by (intro reachable.intros reachable_table_one)

lemma reachable_table_allowed: "reachable table_allowed"
  unfolding table_allowed_def by (intro reachable.intros)

section \<open>Claims\<close>



text \<open>
  C2. \<open>Mount\<close> is idempotent per device, path and filesystem type. When a call of
  \<open>Mount\<close> for device \<open>D\<close> at a path that normalizes to \<open>P\<close> with type \<open>fs\<close> has
  returned nil on a reachable table, a second call for \<open>D\<close>, any path that normalizes to
  \<open>P\<close> and the same \<open>fs\<close> returns nil, leaves the table as it is, makes no call to a
  collaborator, and \<open>Mounts D\<close> holds \<open>P\<close> exactly once. Over both calls the backend's
  mount ran once when \<open>D\<close> was not yet mounted at \<open>P\<close> before the first call, and not
  at all when it was.
\<close>

theorem Mount_idempotent:
  assumes "reachable m"
    and "ret (Mount w minor device path fs flags data timeout m) = None"
    and "normalizeMountPath path' = normalizeMountPath path"
  shows "ret (Mount w' minor' device path' fs flags' data' timeout'
               (table (Mount w minor device path fs flags data timeout m))) = None
       \<and> table (Mount w' minor' device path' fs flags' data' timeout'
               (table (Mount w minor device path fs flags data timeout m)))
           = table (Mount w minor device path fs flags data timeout m)
       \<and> calls (Mount w' minor' device path' fs flags' data' timeout'
               (table (Mount w minor device path fs flags data timeout m))) = []
       \<and> (\<exists>ps. Mounts (table (Mount w' minor' device path' fs flags' data' timeout'
               (table (Mount w minor device path fs flags data timeout m)))) device = Some ps
              \<and> count_list ps (normalizeMountPath path) = 1)
       \<and> length (filter isMountCall
             (calls (Mount w minor device path fs flags data timeout m) @
              calls (Mount w' minor' device path' fs flags' data' timeout'
               (table (Mount w minor device path fs flags data timeout m))))) =
           (if fst (Exists m device (normalizeMountPath path)) then 0 else 1)"
proof -
  let ?r1 = "Mount w minor device path fs flags data timeout m"
  let ?m1 = "table ?r1"
  let ?P = "normalizeMountPath path"
  have inv1: "table_inv ?m1"
    using assms(1) by (simp add: reachable_table_inv table_inv_Mount)
  from Mount_success[OF assms(2)] obtain info where
    info: "mounts ?m1 device = Some info" "Fs info = fs" "mountedAt (Mountpoint info) ?P"
    and pol: "allowedDirs ?m1 = [] \<or> foundPrefix (allowedDirs ?m1) ?P"
    by auto
  from info(3) obtain p where p: "p \<in> set (Mountpoint info)" "Path p = ?P"
    by (auto simp: mountedAt_iff)
  from inv_fwd[OF inv1 info(1) p(1)] p(2) have own: "paths ?m1 ?P = Some device" by simp
  have r2: "Mount w' minor' device path' fs flags' data' timeout' ?m1
              = \<lparr>ret = None, table = ?m1, calls = []\<rparr>"
    using info pol own assms(3) by (intro Mount_noop[of _ _ info]) simp_all
  have "distinct (map Path (Mountpoint info))" by (rule inv_distinct[OF inv1 info(1)])
  moreover have "?P \<in> set (map Path (Mountpoint info))"
    using info(3) by (simp add: mountedAt_iff)
  ultimately have c: "count_list (map Path (Mountpoint info)) ?P = 1"
    by (rule count_list_distinct)
  have ms: "Mounts ?m1 device = Some (map Path (Mountpoint info))"
    using info(1) by (simp add: Mounts_def)
  show ?thesis
    unfolding r2 using c ms Mount_success_calls[OF assms(2)] by simp
qed

theorem Mount_idempotent_witness:
  "reachable (NewMounter [])
   \<and> ret (Mount world_ok 1 ''/dev/sdb1'' ''/mnt/vol1/'' ''ext4'' 0 [] 0 (NewMounter [])) = None
   \<and> normalizeMountPath ''/mnt/vol1'' = normalizeMountPath ''/mnt/vol1/''
   \<and> ret (Mount world_refuse 9 ''/dev/sdb1'' ''/mnt/vol1'' ''ext4'' 4 ''ro'' 30 table_one) = None
   \<and> table (Mount world_refuse 9 ''/dev/sdb1'' ''/mnt/vol1'' ''ext4'' 4 ''ro'' 30 table_one) = table_one
   \<and> calls (Mount world_refuse 9 ''/dev/sdb1'' ''/mnt/vol1'' ''ext4'' 4 ''ro'' 30 table_one) = []
   \<and> Mounts table_one ''/dev/sdb1'' = Some [''/mnt/vol1'']
   \<and> length (filter isMountCall
        (calls (Mount world_ok 1 ''/dev/sdb1'' ''/mnt/vol1/'' ''ext4'' 0 [] 0 (NewMounter [])) @
         calls (Mount world_refuse 9 ''/dev/sdb1'' ''/mnt/vol1'' ''ext4'' 4 ''ro'' 30 table_one))) = 1"
proof -
  have h1: "reachable (NewMounter [])" by (rule reachable.new)
  have h2: "ret (Mount world_ok 1 ''/dev/sdb1'' ''/mnt/vol1/'' ''ext4'' 0 [] 0 (NewMounter [])) = None"
    by (simp add: first_mount_run)
  have h3: "normalizeMountPath ''/mnt/vol1'' = normalizeMountPath ''/mnt/vol1/''"
    by (simp add: run_defs)
  have e: "\<not> fst (Exists (NewMounter []) ''/dev/sdb1'' ''/mnt/vol1'')"
    by (simp add: run_defs)
  have m: "Mounts table_one ''/dev/sdb1'' = Some [''/mnt/vol1'']"
    by (simp add: table_one_eq run_defs)
  from Mount_idempotent[OF h1 h2 h3, of world_refuse 9 4 "''ro''" 30] h1 h2 h3 e m
  show ?thesis by (simp add: first_mount_run normalize_concrete)
qed

text \<open>
  C3. In a reachable table whose reverse index has the normalized path \<open>P\<close> under
  device \<open>D\<close>, \<open>Mount\<close> of another device \<open>D2\<close> at \<open>P\<close> returns \<open>ErrExist\<close>, calls no
  collaborator and returns the table as it was.
\<close>

theorem Mount_elsewhere:
  assumes "reachable m"
    and "paths m (normalizeMountPath path) = Some D"
    and "D2 \<noteq> D"
  shows "Mount w minor D2 path fs flags data timeout m =
           \<lparr>ret = Some ErrExist, table = m, calls = []\<rparr>"
proof -
  from inv_pol[OF reachable_table_inv[OF assms(1)] assms(2)]
  have "allowedDirs m = [] \<or> foundPrefix (allowedDirs m) (normalizeMountPath path)" .
  with assms(2,3) show ?thesis
    by (auto simp: Mount_def Let_def hasPath_def)
qed

theorem Mount_elsewhere_witness:
  "reachable table_one
   \<and> paths table_one (normalizeMountPath ''/mnt/vol1/'') = Some ''/dev/sdb1''
   \<and> ''/dev/sdc1'' \<noteq> ''/dev/sdb1''
   \<and> Mount world_ok 2 ''/dev/sdc1'' ''/mnt/vol1/'' ''ext4'' 0 [] 0 table_one =
       \<lparr>ret = Some ErrExist, table = table_one, calls = []\<rparr>"
proof -
  have h2: "paths table_one (normalizeMountPath ''/mnt/vol1/'') = Some ''/dev/sdb1''"
    by (simp add: table_one_eq run_defs)
  have h3: "''/dev/sdc1'' \<noteq> ''/dev/sdb1''" by simp
  from Mount_elsewhere[OF reachable_table_one h2 h3, of world_ok 2 "''ext4''" 0 "[]" 0]
    reachable_table_one h2 h3
  show ?thesis by simp
qed

text \<open>
  C4. A failing backend leaves the bookkeeping alone. When the backend's mount answers
  with an error for the arguments of a \<open>Mount\<close> call, the reverse index is unchanged,
  every entry of the device map is unchanged except that a new entry with no target
  may have been added for the device, and if the backend was called, \<open>Mount\<close> returns its
  error. When the backend's unmount answers with an error, \<open>Unmount\<close> returns the table
  as it was, and if the backend was called, \<open>Unmount\<close> returns its error.
\<close>

theorem backend_failure_keeps_table:
  "(impl_Mount w device (normalizeMountPath path) fs flags data timeout = Some e \<longrightarrow>
      paths (table (Mount w minor device path fs flags data timeout m)) = paths m
      \<and> (\<forall>d. mounts (table (Mount w minor device path fs flags data timeout m)) d = mounts m d \<or>
             (d = device \<and> mounts m d = None \<and>
              mounts (table (Mount w minor device path fs flags data timeout m)) d =
                Some \<lparr>Device = device, Minor = minor, Mountpoint = [], Fs = fs\<rparr>))
      \<and> (MountCall device (normalizeMountPath path) fs flags data timeout
            \<in> set (calls (Mount w minor device path fs flags data timeout m)) \<longrightarrow>
          ret (Mount w minor device path fs flags data timeout m) = Some (ErrExternal e)))
   \<and> (impl_Unmount w' (normalizeMountPath path') flags' timeout' = Some e' \<longrightarrow>
        table (Unmount w' device' path' flags' timeout' removePath m') = m'
        \<and> (UnmountCall (normalizeMountPath path') flags' timeout'
              \<in> set (calls (Unmount w' device' path' flags' timeout' removePath m')) \<longrightarrow>
            ret (Unmount w' device' path' flags' timeout' removePath m') = Some (ErrExternal e')))"
  using Mount_backend_error[of w device path fs flags data timeout e minor m]
    Unmount_backend_error[of w' path' flags' timeout' e' device' removePath m']
  by blast

theorem backend_failure_keeps_table_witness:
  "impl_Mount world_refuse ''/dev/sdb1'' (normalizeMountPath ''/mnt/vol1'') ''ext4'' 0 [] 0 = Some ''EBUSY''
   \<and> MountCall ''/dev/sdb1'' (normalizeMountPath ''/mnt/vol1'') ''ext4'' 0 [] 0
        \<in> set (calls (Mount world_refuse 1 ''/dev/sdb1'' ''/mnt/vol1'' ''ext4'' 0 [] 0 (NewMounter [])))
   \<and> ret (Mount world_refuse 1 ''/dev/sdb1'' ''/mnt/vol1'' ''ext4'' 0 [] 0 (NewMounter []))
        = Some (ErrExternal ''EBUSY'')
   \<and> paths (table (Mount world_refuse 1 ''/dev/sdb1'' ''/mnt/vol1'' ''ext4'' 0 [] 0 (NewMounter [])))
        = paths (NewMounter [])
   \<and> Mounts (table (Mount world_refuse 1 ''/dev/sdb1'' ''/mnt/vol1'' ''ext4'' 0 [] 0 (NewMounter [])))
        ''/dev/sdb1'' = Some []
   \<and> impl_Unmount world_refuse (normalizeMountPath ''/mnt/vol1'') 0 0 = Some ''EBUSY''
   \<and> UnmountCall (normalizeMountPath ''/mnt/vol1'') 0 0
        \<in> set (calls (Unmount world_refuse ''/dev/sdb1'' ''/mnt/vol1'' 0 0 True table_one))
   \<and> ret (Unmount world_refuse ''/dev/sdb1'' ''/mnt/vol1'' 0 0 True table_one)
        = Some (ErrExternal ''EBUSY'')
   \<and> table (Unmount world_refuse ''/dev/sdb1'' ''/mnt/vol1'' 0 0 True table_one) = table_one"
proof -
  have a: "impl_Mount world_refuse ''/dev/sdb1'' (normalizeMountPath ''/mnt/vol1'') ''ext4'' 0 [] 0
             = Some ''EBUSY''"
    and b: "impl_Unmount world_refuse (normalizeMountPath ''/mnt/vol1'') 0 0 = Some ''EBUSY''"
    by (simp_all add: world_refuse_def)
  have c: "MountCall ''/dev/sdb1'' (normalizeMountPath ''/mnt/vol1'') ''ext4'' 0 [] 0
        \<in> set (calls (Mount world_refuse 1 ''/dev/sdb1'' ''/mnt/vol1'' ''ext4'' 0 [] 0 (NewMounter [])))"
    by (simp add: run_defs)
  have d: "UnmountCall (normalizeMountPath ''/mnt/vol1'') 0 0
        \<in> set (calls (Unmount world_refuse ''/dev/sdb1'' ''/mnt/vol1'' 0 0 True table_one))"
    by (simp add: table_one_eq run_defs)
  have e: "Mounts (table (Mount world_refuse 1 ''/dev/sdb1'' ''/mnt/vol1'' ''ext4'' 0 [] 0 (NewMounter [])))
        ''/dev/sdb1'' = Some []"
    by (simp add: run_defs)
  from backend_failure_keeps_table[of world_refuse "''/dev/sdb1''" "''/mnt/vol1''" "''ext4''" 0 "[]" 0
      "''EBUSY''" 1 "NewMounter []" world_refuse "''/mnt/vol1''" 0 0 "''EBUSY''" "''/dev/sdb1''" True
      table_one] a b c d e
  show ?thesis by simp
qed

text \<open>
  C5, as amended. When the table has an entry for \<open>D\<close> whose filesystem type differs
  from the requested one, \<open>Mount\<close> for \<open>D\<close> fails, calls no collaborator and returns the
  table as it was. The error is \<open>ErrEinval\<close> whenever the path passes the allow-list
  check and the reverse index does not have it under another device, and so, in a
  reachable table, at every path \<open>D\<close> already holds. Otherwise the two earlier checks
  answer first: \<open>ErrMountpathNotAllowed\<close> when the allow-list is not empty and none of
  its elements occurs in the path, and \<open>ErrExist\<close> when the path passes that check and
  the reverse index has it under another device.
\<close>

theorem Mount_fs_mismatch:
  assumes "mounts m D = Some info" and "Fs info \<noteq> fs"
  shows "table (Mount w minor D path fs flags data timeout m) = m
       \<and> calls (Mount w minor D path fs flags data timeout m) = []
       \<and> (ret (Mount w minor D path fs flags data timeout m) = Some ErrMountpathNotAllowed
          \<or> ret (Mount w minor D path fs flags data timeout m) = Some ErrExist
          \<or> ret (Mount w minor D path fs flags data timeout m) = Some ErrEinval)
       \<and> ((allowedDirs m = [] \<or> foundPrefix (allowedDirs m) (normalizeMountPath path))
            \<and> (paths m (normalizeMountPath path) = None \<or> paths m (normalizeMountPath path) = Some D)
          \<longrightarrow> ret (Mount w minor D path fs flags data timeout m) = Some ErrEinval)
       \<and> (reachable m \<and> mountedAt (Mountpoint info) (normalizeMountPath path)
          \<longrightarrow> ret (Mount w minor D path fs flags data timeout m) = Some ErrEinval)
       \<and> (allowedDirs m \<noteq> []
            \<and> \<not> (\<exists>a \<in> set (allowedDirs m). sublist a (normalizeMountPath path))
          \<longrightarrow> ret (Mount w minor D path fs flags data timeout m) = Some ErrMountpathNotAllowed)
       \<and> ((allowedDirs m = [] \<or> (\<exists>a \<in> set (allowedDirs m). sublist a (normalizeMountPath path)))
            \<and> (\<exists>dev. paths m (normalizeMountPath path) = Some dev \<and> dev \<noteq> D)
          \<longrightarrow> ret (Mount w minor D path fs flags data timeout m) = Some ErrExist)"
proof -
  let ?P = "normalizeMountPath path"
  let ?ret = "ret (Mount w minor D path fs flags data timeout m)"
  note r = Mount_fs_mismatch_ret[OF assms, of w minor path flags data timeout]
  have held: "?ret = Some ErrEinval"
    if re: "reachable m" and at: "mountedAt (Mountpoint info) ?P"
  proof -
    from at obtain p where p: "p \<in> set (Mountpoint info)" "Path p = ?P"
      by (auto simp: mountedAt_iff)
    have inv: "table_inv m" by (rule reachable_table_inv[OF re])
    from inv_fwd[OF inv assms(1) p(1)] p(2) have own: "paths m ?P = Some D" by simp
    from inv_pol[OF inv own] own show ?thesis unfolding r by auto
  qed
  have refused: "?ret = Some ErrMountpathNotAllowed"
    if "allowedDirs m \<noteq> []" "\<not> (\<exists>a \<in> set (allowedDirs m). sublist a ?P)"
    using that unfolding r by (simp add: foundPrefix_iff)
  have elsewhere: "?ret = Some ErrExist"
    if "allowedDirs m = [] \<or> (\<exists>a \<in> set (allowedDirs m). sublist a ?P)"
      and "\<exists>dev. paths m ?P = Some dev \<and> dev \<noteq> D"
    using that unfolding r by (auto simp: foundPrefix_iff)
  have base: "table (Mount w minor D path fs flags data timeout m) = m
       \<and> calls (Mount w minor D path fs flags data timeout m) = []
       \<and> (?ret = Some ErrMountpathNotAllowed \<or> ?ret = Some ErrExist \<or> ?ret = Some ErrEinval)
       \<and> ((allowedDirs m = [] \<or> foundPrefix (allowedDirs m) ?P)
            \<and> (paths m ?P = None \<or> paths m ?P = Some D)
          \<longrightarrow> ?ret = Some ErrEinval)"
    unfolding r by (auto split: option.splits)
  from base held refused elsewhere show ?thesis by blast
qed

theorem Mount_fs_mismatch_witness:
  "mounts table_one ''/dev/sdb1'' = Some \<lparr>Device = ''/dev/sdb1'', Minor = 1,
       Mountpoint = [\<lparr>Path = ''/mnt/vol1''\<rparr>], Fs = ''ext4''\<rparr>
   \<and> Fs \<lparr>Device = ''/dev/sdb1'', Minor = 1,
       Mountpoint = [\<lparr>Path = ''/mnt/vol1''\<rparr>], Fs = ''ext4''\<rparr> \<noteq> ''xfs''
   \<and> reachable table_one
   \<and> mountedAt [\<lparr>Path = ''/mnt/vol1''\<rparr>] (normalizeMountPath ''/mnt/vol1/'')
   \<and> ret (Mount world_ok 1 ''/dev/sdb1'' ''/mnt/vol1/'' ''xfs'' 0 [] 0 table_one) = Some ErrEinval
   \<and> table (Mount world_ok 1 ''/dev/sdb1'' ''/mnt/vol1/'' ''xfs'' 0 [] 0 table_one) = table_one
   \<and> calls (Mount world_ok 1 ''/dev/sdb1'' ''/mnt/vol1/'' ''xfs'' 0 [] 0 table_one) = []
   \<and> reachable table_allowed
   \<and> mounts table_allowed ''/dev/sdb1'' = Some \<lparr>Device = ''/dev/sdb1'', Minor = 1,
       Mountpoint = [\<lparr>Path = ''/mnt/vol1''\<rparr>], Fs = ''ext4''\<rparr>
   \<and> allowedDirs table_allowed \<noteq> []
   \<and> \<not> (\<exists>a \<in> set (allowedDirs table_allowed). sublist a (normalizeMountPath ''/srv/x''))
   \<and> ret (Mount world_ok 1 ''/dev/sdb1'' ''/srv/x'' ''xfs'' 0 [] 0 table_allowed)
       = Some ErrMountpathNotAllowed
   \<and> table (Mount world_ok 1 ''/dev/sdb1'' ''/srv/x'' ''xfs'' 0 [] 0 table_allowed) = table_allowed
   \<and> reachable table_two
   \<and> mounts table_two ''/dev/sdb1'' = Some \<lparr>Device = ''/dev/sdb1'', Minor = 1,
       Mountpoint = [\<lparr>Path = ''/mnt/vol1''\<rparr>], Fs = ''ext4''\<rparr>
   \<and> allowedDirs table_two = []
   \<and> paths table_two (normalizeMountPath ''/mnt/vol2'') = Some ''/dev/sdc1''
   \<and> ''/dev/sdc1'' \<noteq> ''/dev/sdb1''
   \<and> ret (Mount world_ok 1 ''/dev/sdb1'' ''/mnt/vol2'' ''xfs'' 0 [] 0 table_two) = Some ErrExist
   \<and> table (Mount world_ok 1 ''/dev/sdb1'' ''/mnt/vol2'' ''xfs'' 0 [] 0 table_two) = table_two"
proof -
  let ?i = "\<lparr>Device = ''/dev/sdb1'', Minor = 1,
       Mountpoint = [\<lparr>Path = ''/mnt/vol1''\<rparr>], Fs = ''ext4''\<rparr>"
  have a: "mounts table_one ''/dev/sdb1'' = Some ?i"
    by (simp add: table_one_eq)
  have b: "Fs ?i \<noteq> ''xfs''"
    by simp
  have c: "mountedAt [\<lparr>Path = ''/mnt/vol1''\<rparr>] (normalizeMountPath ''/mnt/vol1/'')"
    by (simp add: normalize_concrete)
  have a2: "mounts table_allowed ''/dev/sdb1'' = Some ?i"
    and d2: "allowedDirs table_allowed \<noteq> []"
    by (simp_all add: table_allowed_eq)
  have nf: "\<not> foundPrefix (allowedDirs table_allowed) (normalizeMountPath ''/srv/x'')"
    by (simp add: table_allowed_eq normalize_concrete)
  have n2: "\<not> (\<exists>a \<in> set (allowedDirs table_allowed). sublist a (normalizeMountPath ''/srv/x''))"
    using nf unfolding foundPrefix_iff by assumption
  have a3: "mounts table_two ''/dev/sdb1'' = Some ?i"
    and d3: "allowedDirs table_two = []"
    and p3: "paths table_two (normalizeMountPath ''/mnt/vol2'') = Some ''/dev/sdc1''"
    by (simp_all add: table_two_eq normalize_concrete)
  have ne: "''/dev/sdc1'' \<noteq> ''/dev/sdb1''" by simp
  have e3: "\<exists>dev. paths table_two (normalizeMountPath ''/mnt/vol2'') = Some dev \<and> dev \<noteq> ''/dev/sdb1''"
    using p3 ne by blast
  note t1 = Mount_fs_mismatch[OF a b, of world_ok 1 "''/mnt/vol1/''" 0 "[]" 0]
  note t2 = Mount_fs_mismatch[OF a2 b, of world_ok 1 "''/srv/x''" 0 "[]" 0]
  note t3 = Mount_fs_mismatch[OF a3 b, of world_ok 1 "''/mnt/vol2''" 0 "[]" 0]
  have r1: "ret (Mount world_ok 1 ''/dev/sdb1'' ''/mnt/vol1/'' ''xfs'' 0 [] 0 table_one) = Some ErrEinval"
    using t1 c reachable_table_one by simp
  have r2: "ret (Mount world_ok 1 ''/dev/sdb1'' ''/srv/x'' ''xfs'' 0 [] 0 table_allowed)
       = Some ErrMountpathNotAllowed"
    using t2 d2 n2 by simp
  have r3: "ret (Mount world_ok 1 ''/dev/sdb1'' ''/mnt/vol2'' ''xfs'' 0 [] 0 table_two) = Some ErrExist"
    using t3 d3 e3 by simp
  from t1 t2 t3 have tabs:
    "table (Mount world_ok 1 ''/dev/sdb1'' ''/mnt/vol1/'' ''xfs'' 0 [] 0 table_one) = table_one"
    "calls (Mount world_ok 1 ''/dev/sdb1'' ''/mnt/vol1/'' ''xfs'' 0 [] 0 table_one) = []"
    "table (Mount world_ok 1 ''/dev/sdb1'' ''/srv/x'' ''xfs'' 0 [] 0 table_allowed) = table_allowed"
    "table (Mount world_ok 1 ''/dev/sdb1'' ''/mnt/vol2'' ''xfs'' 0 [] 0 table_two) = table_two"
    by simp_all
  show ?thesis
    using a a2 a3 b c d2 d3 n2 p3 ne r1 r2 r3 tabs
      reachable_table_one reachable_table_two reachable_table_allowed
    by simp
qed

text \<open>
  The claim as first stated, with \<open>ErrEinval\<close> for every such call, fails in a
  reachable table: \<open>/dev/sdb1\<close> is mounted with \<open>ext4\<close>, and its mount with \<open>xfs\<close> at
  a path that \<open>/dev/sdc1\<close> holds returns \<open>ErrExist\<close>.
\<close>

theorem Mount_fs_mismatch_counterexample:
  "mounts table_two ''/dev/sdb1'' = Some \<lparr>Device = ''/dev/sdb1'', Minor = 1,
       Mountpoint = [\<lparr>Path = ''/mnt/vol1''\<rparr>], Fs = ''ext4''\<rparr>
   \<and> ''xfs'' \<noteq> ''ext4''
   \<and> ret (Mount world_ok 1 ''/dev/sdb1'' ''/mnt/vol2'' ''xfs'' 0 [] 0 table_two) = Some ErrExist
   \<and> ret (Mount world_ok 1 ''/dev/sdb1'' ''/mnt/vol2'' ''xfs'' 0 [] 0 table_two) \<noteq> Some ErrEinval"
  by (simp add: table_two_eq run_defs)

text \<open>
  C6. \<open>Unmount\<close> of a device that has no entry returns \<open>ErrEnoent\<close> and changes
  nothing. \<open>Unmount\<close> of a device that has an entry, at a path whose normal form is not
  among the entry's targets, returns nil, changes nothing and calls no collaborator.
\<close>

theorem Unmount_unknown:
  "(mounts m D = None \<longrightarrow>
      Unmount w D path flags timeout removePath m =
        \<lparr>ret = Some ErrEnoent, table = m, calls = []\<rparr>)
   \<and> (mounts m' D' = Some info \<and> \<not> mountedAt (Mountpoint info) (normalizeMountPath path') \<longrightarrow>
      Unmount w' D' path' flags' timeout' removePath' m' =
        \<lparr>ret = None, table = m', calls = []\<rparr>)"
  by (auto simp: Unmount_def Let_def dest: indexOf_Some_mountedAt split: option.splits)

theorem Unmount_unknown_witness:
  "mounts (NewMounter []) ''/dev/sdb1'' = None
   \<and> Unmount world_ok ''/dev/sdb1'' ''/mnt/vol1'' 0 0 True (NewMounter []) =
       \<lparr>ret = Some ErrEnoent, table = NewMounter [], calls = []\<rparr>
   \<and> mounts table_one ''/dev/sdb1'' = Some \<lparr>Device = ''/dev/sdb1'', Minor = 1,
       Mountpoint = [\<lparr>Path = ''/mnt/vol1''\<rparr>], Fs = ''ext4''\<rparr>
   \<and> \<not> mountedAt [\<lparr>Path = ''/mnt/vol1''\<rparr>] (normalizeMountPath ''/mnt/other'')
   \<and> Unmount world_refuse ''/dev/sdb1'' ''/mnt/other'' 0 0 True table_one =
       \<lparr>ret = None, table = table_one, calls = []\<rparr>"
proof -
  have a: "mounts (NewMounter []) ''/dev/sdb1'' = None" by (simp add: NewMounter_def)
  have b: "mounts table_one ''/dev/sdb1'' = Some \<lparr>Device = ''/dev/sdb1'', Minor = 1,
       Mountpoint = [\<lparr>Path = ''/mnt/vol1''\<rparr>], Fs = ''ext4''\<rparr>"
    by (simp add: table_one_eq)
  have c: "\<not> mountedAt [\<lparr>Path = ''/mnt/vol1''\<rparr>] (normalizeMountPath ''/mnt/other'')"
    by (simp add: normalize_concrete)
  from Unmount_unknown[of "NewMounter []" "''/dev/sdb1''" world_ok "''/mnt/vol1''" 0 0 True
      table_one "''/dev/sdb1''" "\<lparr>Device = ''/dev/sdb1'', Minor = 1,
       Mountpoint = [\<lparr>Path = ''/mnt/vol1''\<rparr>], Fs = ''ext4''\<rparr>" "''/mnt/other''" world_refuse 0 0 True]
    a b c
  show ?thesis by simp
qed

text \<open>
  C7, as amended. When the entry of \<open>D\<close> holds exactly one target \<open>P\<close> and the path
  given to \<open>Unmount\<close> normalizes to \<open>P\<close>, the call returns nil exactly when the
  backend's unmount succeeds, and then the entry is gone: \<open>GetSourcePaths\<close> does not
  hold \<open>D\<close>, \<open>Mounts D\<close> is nil, and the reverse index has no \<open>P\<close>.
\<close>

theorem Unmount_last_target:
  assumes "mounts m D = Some info"
    and "map Path (Mountpoint info) = [P]"
    and "normalizeMountPath path = P"
  shows "(ret (Unmount w D path flags timeout removePath m) = None)
           = (impl_Unmount w P flags timeout = None)
       \<and> (ret (Unmount w D path flags timeout removePath m) = None \<longrightarrow>
            D \<notin> GetSourcePaths (table (Unmount w D path flags timeout removePath m))
            \<and> Mounts (table (Unmount w D path flags timeout removePath m)) D = None
            \<and> paths (table (Unmount w D path flags timeout removePath m)) P = None)"
proof -
  from assms(2) obtain p where p: "Mountpoint info = [p]" "Path p = P" by auto
  then have idx: "indexOf (Mountpoint info) P 0 = Some 0" by simp
  show ?thesis
    using assms(1,3) idx p
    by (auto simp: Unmount_def Let_def snd_deletePath removeAt_single maybeRemoveDevice_def
        GetSourcePaths_def Mounts_def split: option.splits)
qed

theorem Unmount_last_target_witness:
  "mounts table_one ''/dev/sdb1'' = Some \<lparr>Device = ''/dev/sdb1'', Minor = 1,
       Mountpoint = [\<lparr>Path = ''/mnt/vol1''\<rparr>], Fs = ''ext4''\<rparr>
   \<and> normalizeMountPath ''/mnt/vol1/'' = ''/mnt/vol1''
   \<and> ret (Unmount world_ok ''/dev/sdb1'' ''/mnt/vol1/'' 0 0 False table_one) = None
   \<and> ''/dev/sdb1'' \<notin> GetSourcePaths (table (Unmount world_ok ''/dev/sdb1'' ''/mnt/vol1/'' 0 0 False table_one))
   \<and> Mounts (table (Unmount world_ok ''/dev/sdb1'' ''/mnt/vol1/'' 0 0 False table_one)) ''/dev/sdb1'' = None
   \<and> paths (table (Unmount world_ok ''/dev/sdb1'' ''/mnt/vol1/'' 0 0 False table_one)) ''/mnt/vol1'' = None"
proof -
  have a: "mounts table_one ''/dev/sdb1'' = Some \<lparr>Device = ''/dev/sdb1'', Minor = 1,
       Mountpoint = [\<lparr>Path = ''/mnt/vol1''\<rparr>], Fs = ''ext4''\<rparr>"
    by (simp add: table_one_eq)
  have b: "map Path (Mountpoint \<lparr>Device = ''/dev/sdb1'', Minor = 1,
       Mountpoint = [\<lparr>Path = ''/mnt/vol1''\<rparr>], Fs = ''ext4''\<rparr>) = [''/mnt/vol1'']"
    by simp
  have c: "normalizeMountPath ''/mnt/vol1/'' = ''/mnt/vol1''" by (simp add: normalize_concrete)
  have d: "impl_Unmount world_ok ''/mnt/vol1'' 0 0 = None" by (simp add: world_ok_def)
  from Unmount_last_target[OF a b c, of world_ok 0 0 False] a c d
  show ?thesis by simp
qed

text \<open>
  The claim as first stated, for every target \<open>P\<close> and \<open>Unmount\<close> called with \<open>P\<close>
  itself, fails in a reachable table. \<open>normalizeMountPath\<close> strips one slash, so a mount
  at \<open>/a//\<close> records the target \<open>/a/\<close>. \<open>Unmount\<close> at \<open>/a/\<close> looks for \<open>/a\<close>, finds no
  such target, returns nil and leaves the entry in place.
\<close>

theorem Unmount_last_target_counterexample:
  "reachable table_slash
   \<and> Mounts table_slash ''/dev/sdb1'' = Some [''/a/'']
   \<and> ret (Unmount world_ok ''/dev/sdb1'' ''/a/'' 0 0 False table_slash) = None
   \<and> ''/dev/sdb1'' \<in> GetSourcePaths (table (Unmount world_ok ''/dev/sdb1'' ''/a/'' 0 0 False table_slash))
   \<and> Mounts (table (Unmount world_ok ''/dev/sdb1'' ''/a/'' 0 0 False table_slash)) ''/dev/sdb1''
       = Some [''/a/'']"
proof -
  have "reachable table_slash" unfolding table_slash_def by (intro reachable.intros)
  then show ?thesis by (simp add: table_slash_eq run_defs)
qed

text \<open>
  C8. The allow-list check is substring containment. With a non-empty allow-list,
  \<open>Mount\<close> returns \<open>ErrMountpathNotAllowed\<close> if and only if no element of the list
  occurs in the normalized path as a contiguous substring. With an empty allow-list
  \<open>Mount\<close> never returns \<open>ErrMountpathNotAllowed\<close>. With the allow-list \<open>[/mnt]\<close> the
  path \<open>/srv/x\<close> is refused and \<open>/var/mnt/x\<close> passes the check, although \<open>/mnt\<close> is
  not a prefix of it.
\<close>

theorem allow_list_substring:
  "(allowedDirs m \<noteq> [] \<longrightarrow>
      (ret (Mount w minor device path fs flags data timeout m) = Some ErrMountpathNotAllowed)
        = (\<not> (\<exists>a \<in> set (allowedDirs m). sublist a (normalizeMountPath path))))
   \<and> (allowedDirs m' = [] \<longrightarrow>
      ret (Mount w' minor' device' path' fs' flags' data' timeout' m') \<noteq> Some ErrMountpathNotAllowed)
   \<and> ret (Mount w1 minor1 device1 ''/srv/x'' fs1 flags1 data1 timeout1
            (m1\<lparr>allowedDirs := [''/mnt'']\<rparr>)) = Some ErrMountpathNotAllowed
   \<and> ret (Mount w2 minor2 device2 ''/var/mnt/x'' fs2 flags2 data2 timeout2
            (m2\<lparr>allowedDirs := [''/mnt'']\<rparr>)) \<noteq> Some ErrMountpathNotAllowed
   \<and> \<not> prefix ''/mnt'' ''/var/mnt/x''"
proof -
  have g: "ret (Mount w minor device path fs flags data timeout m) = Some ErrMountpathNotAllowed
        \<longleftrightarrow> allowedDirs m \<noteq> [] \<and> \<not> foundPrefix (allowedDirs m) (normalizeMountPath path)"
    for w minor device path fs flags data timeout m
    by (auto simp: Mount_def Let_def split: option.splits prod.splits)
  have n1: "normalizeMountPath ''/srv/x'' = ''/srv/x''"
    and n2: "normalizeMountPath ''/var/mnt/x'' = ''/var/mnt/x''"
    by (simp_all add: normalizeMountPath_def suffix_def)
  have c1: "\<not> foundPrefix [''/mnt''] ''/srv/x''"
    and c2: "foundPrefix [''/mnt''] ''/var/mnt/x''"
    by simp_all
  show ?thesis
    unfolding g using c1 c2 by (simp add: n1 n2 foundPrefix_iff[of "allowedDirs m"])
qed

theorem allow_list_substring_witness:
  "allowedDirs (NewMounter [''/mnt'']) \<noteq> []
   \<and> (\<exists>a \<in> set (allowedDirs (NewMounter [''/mnt''])). sublist a (normalizeMountPath ''/var/mnt/x/''))
   \<and> ret (Mount world_ok 1 ''/dev/sdb1'' ''/var/mnt/x/'' ''ext4'' 0 [] 0 (NewMounter [''/mnt'']))
        \<noteq> Some ErrMountpathNotAllowed
   \<and> ret (Mount world_ok 1 ''/dev/sdb1'' ''/var/mnt/x'' ''ext4'' 0 [] 0 (NewMounter [''/mnt''])) = None
   \<and> ret (Mount world_ok 1 ''/dev/sdb1'' ''/srv/x'' ''ext4'' 0 [] 0 (NewMounter [''/mnt'']))
        = Some ErrMountpathNotAllowed
   \<and> allowedDirs (NewMounter []) = []
   \<and> ret (Mount world_ok 1 ''/dev/sdb1'' ''/srv/x'' ''ext4'' 0 [] 0 (NewMounter []))
        \<noteq> Some ErrMountpathNotAllowed"
proof -
  have a: "allowedDirs (NewMounter [''/mnt'']) \<noteq> []" and b: "allowedDirs (NewMounter []) = []"
    by (simp_all add: NewMounter_def)
  have c: "ret (Mount world_ok 1 ''/dev/sdb1'' ''/var/mnt/x/'' ''ext4'' 0 [] 0 (NewMounter [''/mnt'']))
        \<noteq> Some ErrMountpathNotAllowed"
    and d: "ret (Mount world_ok 1 ''/dev/sdb1'' ''/var/mnt/x'' ''ext4'' 0 [] 0 (NewMounter [''/mnt''])) = None"
    and e: "ret (Mount world_ok 1 ''/dev/sdb1'' ''/srv/x'' ''ext4'' 0 [] 0 (NewMounter [''/mnt'']))
        = Some ErrMountpathNotAllowed"
    by (simp_all add: run_defs normalizeMountPath_def suffix_def)
  from allow_list_substring[of "NewMounter [''/mnt'']" world_ok 1 "''/dev/sdb1''" "''/var/mnt/x/''"
      "''ext4''" 0 "[]" 0 "NewMounter []" world_ok 1 "''/dev/sdb1''" "''/srv/x''" "''ext4''" 0 "[]" 0]
    a b c d e
  show ?thesis by simp
qed

text \<open>
  C9, as amended. When the path exists on disk and the scheduler refuses the task,
  \<open>RemoveMountPath\<close> returns the scheduler's error to its caller and leaves the table as
  it was. \<open>Unmount\<close> with \<open>removePath\<close> set drops that error: it returns what it returns
  with \<open>removePath\<close> unset and leaves the same table, so it returns nil whenever the
  device holds the path and the backend's unmount succeeds.
\<close>

theorem reclamation_errors:
  "(os_Stat w path \<and> sched_Schedule w path = Some e \<longrightarrow>
      RemoveMountPath w path m =
        \<lparr>ret = Some (ErrExternal e), table = m, calls = [StatCall path, ScheduleCall path]\<rparr>)
   \<and> ret (Unmount w' device path' flags timeout True m')
       = ret (Unmount w' device path' flags timeout False m')
   \<and> table (Unmount w' device path' flags timeout True m')
       = table (Unmount w' device path' flags timeout False m')
   \<and> (mounts m' device = Some info \<and> mountedAt (Mountpoint info) (normalizeMountPath path')
        \<and> impl_Unmount w' (normalizeMountPath path') flags timeout = None \<longrightarrow>
      ret (Unmount w' device path' flags timeout True m') = None)"
  using Unmount_removePath[of w' device path' flags timeout m']
    Unmount_found[of m' device info path' w' flags timeout True]
  by (simp add: RemoveMountPath_def)

theorem reclamation_errors_witness:
  "os_Stat world_nosched ''/mnt/vol1''
   \<and> sched_Schedule world_nosched ''/mnt/vol1'' = Some ''rejected''
   \<and> RemoveMountPath world_nosched ''/mnt/vol1'' table_one =
        \<lparr>ret = Some (ErrExternal ''rejected''), table = table_one,
         calls = [StatCall ''/mnt/vol1'', ScheduleCall ''/mnt/vol1'']\<rparr>
   \<and> mounts table_one ''/dev/sdb1'' = Some \<lparr>Device = ''/dev/sdb1'', Minor = 1,
       Mountpoint = [\<lparr>Path = ''/mnt/vol1''\<rparr>], Fs = ''ext4''\<rparr>
   \<and> mountedAt [\<lparr>Path = ''/mnt/vol1''\<rparr>] (normalizeMountPath ''/mnt/vol1'')
   \<and> impl_Unmount world_nosched (normalizeMountPath ''/mnt/vol1'') 0 0 = None
   \<and> ret (Unmount world_nosched ''/dev/sdb1'' ''/mnt/vol1'' 0 0 True table_one) = None"
proof -
  have a: "os_Stat world_nosched ''/mnt/vol1''"
    and b: "sched_Schedule world_nosched ''/mnt/vol1'' = Some ''rejected''"
    and c: "impl_Unmount world_nosched (normalizeMountPath ''/mnt/vol1'') 0 0 = None"
    by (simp_all add: world_nosched_def)
  have d: "mounts table_one ''/dev/sdb1'' = Some \<lparr>Device = ''/dev/sdb1'', Minor = 1,
       Mountpoint = [\<lparr>Path = ''/mnt/vol1''\<rparr>], Fs = ''ext4''\<rparr>"
    by (simp add: table_one_eq)
  have e: "mountedAt [\<lparr>Path = ''/mnt/vol1''\<rparr>] (normalizeMountPath ''/mnt/vol1'')"
    by (simp add: normalize_vol1)
  from reclamation_errors[of world_nosched "''/mnt/vol1''" "''rejected''" table_one
      world_nosched "''/dev/sdb1''" "''/mnt/vol1''" 0 0 table_one
      "\<lparr>Device = ''/dev/sdb1'', Minor = 1,
       Mountpoint = [\<lparr>Path = ''/mnt/vol1''\<rparr>], Fs = ''ext4''\<rparr>"] a b c d e
  show ?thesis by (auto simp: normalize_vol1)
qed

text \<open>
  The claim as first stated has the scheduler's error returned to the caller of
  \<open>Unmount\<close> as well. Here the path exists, the scheduler refuses the task inside
  \<open>Unmount\<close>, \<open>RemoveMountPath\<close> returns the error, and \<open>Unmount\<close> returns nil.
\<close>

theorem reclamation_errors_counterexample:
  "os_Stat world_nosched ''/mnt/vol1''
   \<and> sched_Schedule world_nosched ''/mnt/vol1'' = Some ''rejected''
   \<and> calls (Unmount world_nosched ''/dev/sdb1'' ''/mnt/vol1'' 0 0 True table_one) =
       [UnmountCall ''/mnt/vol1'' 0 0, StatCall ''/mnt/vol1'', ScheduleCall ''/mnt/vol1'']
   \<and> ret (RemoveMountPath world_nosched ''/mnt/vol1''
            (table (Unmount world_nosched ''/dev/sdb1'' ''/mnt/vol1'' 0 0 True table_one)))
       = Some (ErrExternal ''rejected'')
   \<and> ret (Unmount world_nosched ''/dev/sdb1'' ''/mnt/vol1'' 0 0 True table_one) = None"
  by (simp add: table_one_eq run_defs)

text \<open>
  C10. For \<open>NFSMount\<close>, \<open>New\<close> checks only that \<open>identifiers\<close> has at most one
  element before it reads \<open>identifiers[0]\<close>. On the empty list the read is out of range
  and \<open>New\<close> panics; \<open>New\<close> panics on no other list. On one identifier it returns what
  \<open>NewNFSMounter\<close> returns, on two or more the error for several server addresses.
\<close>

theorem New_NFS_identifiers:
  "New NewDeviceMounter NewNFSMounter NewCustomMounter DefaultMounter
       NFSMount mountImpl [] customMounter allowed = Panic
   \<and> (New NewDeviceMounter NewNFSMounter NewCustomMounter DefaultMounter
         NFSMount mountImpl identifiers customMounter allowed = Panic) = (identifiers = [])
   \<and> (New NewDeviceMounter NewNFSMounter NewCustomMounter DefaultMounter
         NFSMount mountImpl [server] customMounter allowed =
       Returned (NewNFSMounter server (case mountImpl of None \<Rightarrow> DefaultMounter | Some i \<Rightarrow> i) allowed))
   \<and> (New NewDeviceMounter NewNFSMounter NewCustomMounter DefaultMounter
         NFSMount mountImpl (a # b # rest) customMounter allowed = Returned (Inl ErrMultipleServers))"
  by (cases identifiers)
     (auto simp: New_def Let_def index_def NFSMount_def DeviceMount_def split: option.splits)

section \<open>Further properties\<close>

text \<open>
  In a reachable table at most one device lists a path, so the scans of \<open>HasTarget\<close>
  and \<open>GetSourcePath\<close> have one possible result whatever the order of the walk, and it
  is the device the reverse index gives for the path.
\<close>

theorem scan_agrees_with_index:
  assumes "reachable m"
  shows "HasTarget m p = {case paths m p of Some d \<Rightarrow> (d, True) | None \<Rightarrow> ([], False)}
       \<and> GetSourcePath m p = {case paths m p of Some d \<Rightarrow> (d, None) | None \<Rightarrow> ([], Some ErrEnoent)}"
proof -
  note h = hits_reachable[OF assms, of p]
  show ?thesis
  proof (cases "paths m p")
    case None
    with h show ?thesis by (simp add: HasTarget_def GetSourcePath_def)
  next
    case (Some d)
    with h show ?thesis by (simp add: HasTarget_def GetSourcePath_def)
  qed
qed

theorem scan_agrees_with_index_witness:
  "reachable table_two
   \<and> HasTarget table_two ''/mnt/vol2'' = {(''/dev/sdc1'', True)}
   \<and> HasTarget table_two ''/mnt/vol3'' = {([], False)}
   \<and> GetSourcePath table_two ''/mnt/vol1'' = {(''/dev/sdb1'', None)}"
proof -
  have r: "reachable table_two"
    unfolding table_two_def by (intro reachable.intros reachable_table_one)
  from scan_agrees_with_index[OF r, of "''/mnt/vol2''"] scan_agrees_with_index[OF r, of "''/mnt/vol3''"]
    scan_agrees_with_index[OF r, of "''/mnt/vol1''"] r
  show ?thesis by (simp add: table_two_eq)
qed

text \<open>
  After the first successful mount of a device, \<open>Mounts\<close> of the device is the list
  of the normalized path alone, the reverse index has the path under the device, and
  \<open>HasMounts\<close> is one.
\<close>

theorem first_mount_lists_path:
  assumes "mounts m D = None"
    and "ret (Mount w minor D path fs flags data timeout m) = None"
  shows "Mounts (table (Mount w minor D path fs flags data timeout m)) D = Some [normalizeMountPath path]
       \<and> paths (table (Mount w minor D path fs flags data timeout m)) (normalizeMountPath path) = Some D
       \<and> HasMounts (table (Mount w minor D path fs flags data timeout m)) D = 1"
  using assms
  by (auto simp: Mount_def Let_def addPath_def Mounts_def HasMounts_def
      split: if_splits option.splits prod.splits)

theorem first_mount_lists_path_witness:
  "mounts (NewMounter []) ''/dev/sdb1'' = None
   \<and> ret (Mount world_ok 1 ''/dev/sdb1'' ''/mnt/vol1/'' ''ext4'' 0 [] 0 (NewMounter [])) = None
   \<and> Mounts table_one ''/dev/sdb1'' = Some [''/mnt/vol1'']
   \<and> paths table_one ''/mnt/vol1'' = Some ''/dev/sdb1''
   \<and> HasMounts table_one ''/dev/sdb1'' = 1"
proof -
  have a: "mounts (NewMounter []) ''/dev/sdb1'' = None" by (simp add: NewMounter_def)
  have b: "ret (Mount world_ok 1 ''/dev/sdb1'' ''/mnt/vol1/'' ''ext4'' 0 [] 0 (NewMounter [])) = None"
    by (simp add: first_mount_run)
  from first_mount_lists_path[OF a b] a b
  show ?thesis by (simp add: first_mount_run normalize_concrete)
qed

text \<open>
  When the first mount of a device fails in the backend, the device stays in the
  device map with no target, and \<open>Unmount\<close> of that device, at any path, returns nil
  and leaves the entry where it is: \<open>maybeRemoveDevice\<close> is called only after a target
  was found and unmounted.
\<close>

theorem empty_entry_stays:
  assumes "mounts m D = None"
    and "ret (Mount w minor D path fs flags data timeout m) = Some (ErrExternal e)"
  shows "Mounts (table (Mount w minor D path fs flags data timeout m)) D = Some []
       \<and> D \<in> GetSourcePaths (table (Mount w minor D path fs flags data timeout m))
       \<and> Unmount w' D path' flags' timeout' removePath
            (table (Mount w minor D path fs flags data timeout m)) =
          \<lparr>ret = None, table = table (Mount w minor D path fs flags data timeout m), calls = []\<rparr>"
  unfolding Mount_new_device_backend_error[OF assms]
  by (simp add: Unmount_def Let_def Mounts_def GetSourcePaths_def)

theorem empty_entry_stays_witness:
  "mounts (NewMounter []) ''/dev/sdb1'' = None
   \<and> ret (Mount world_refuse 1 ''/dev/sdb1'' ''/mnt/vol1'' ''ext4'' 0 [] 0 (NewMounter []))
       = Some (ErrExternal ''EBUSY'')
   \<and> ret (Unmount world_ok ''/dev/sdb1'' ''/mnt/vol1'' 0 0 False
          (table (Mount world_refuse 1 ''/dev/sdb1'' ''/mnt/vol1'' ''ext4'' 0 [] 0 (NewMounter [])))) = None
   \<and> ''/dev/sdb1'' \<in> GetSourcePaths
        (table (Unmount world_ok ''/dev/sdb1'' ''/mnt/vol1'' 0 0 False
          (table (Mount world_refuse 1 ''/dev/sdb1'' ''/mnt/vol1'' ''ext4'' 0 [] 0 (NewMounter [])))))"
proof -
  have a: "mounts (NewMounter []) ''/dev/sdb1'' = None" by (simp add: NewMounter_def)
  have b: "ret (Mount world_refuse 1 ''/dev/sdb1'' ''/mnt/vol1'' ''ext4'' 0 [] 0 (NewMounter []))
       = Some (ErrExternal ''EBUSY'')"
    by (simp add: run_defs)
  from empty_entry_stays[OF a b, of world_ok "''/mnt/vol1''" 0 0 False] a b
  show ?thesis by simp
qed

end
